theory Spec2Isabelle
  imports Complex_Main
begin

section \<open>Bytes, text and the Python built-ins the server calls\<close>

text \<open>
  The server of \<^verbatim>\<open>udp_webcam_server.py\<close> exchanges UDP datagrams. A datagram is a
  Python \<^verbatim>\<open>bytes\<close> object, modelled as a list of 8-bit characters; a decoded
  message is a Python \<^verbatim>\<open>str\<close>, modelled as the list of its code points.
\<close>

type_synonym bytes = string
type_synonym pystr = "nat list"

text \<open>The exceptions that the modelled code can raise.\<close>

datatype py_error =
  UnicodeDecodeError | ValueError | IndexError | ZeroDivisionError | StructError | SocketError

text \<open>A string literal of the source, all of whose characters are ASCII.\<close>

definition text_of :: "string \<Rightarrow> pystr" where
  "text_of s = map of_char s"

subsection \<open>\<^verbatim>\<open>data.decode('utf-8')\<close>\<close>

definition cont :: "nat \<Rightarrow> bool" where
  "cont b \<longleftrightarrow> 128 \<le> b \<and> b \<le> 191"

text \<open>
  The strict decoder: a lead byte fixes the length of the sequence; overlong forms
  (lead bytes \<open>0xC0\<close>, \<open>0xC1\<close>, and \<open>0xE0\<close>, \<open>0xF0\<close> followed by a too small byte),
  surrogates (\<open>0xED\<close> followed by \<open>0xA0\<close> or more) and code points above \<open>0x10FFFF\<close>
  are rejected, as is a truncated sequence. \<open>None\<close> stands for \<^verbatim>\<open>UnicodeDecodeError\<close>.
\<close>

fun utf8 :: "nat list \<Rightarrow> pystr option" where
  "utf8 [] = Some []"
| "utf8 (b # bs) =
    (if b < 128 then map_option ((#) b) (utf8 bs)
     else if 194 \<le> b \<and> b \<le> 223 then
       (case bs of
          c1 # r \<Rightarrow>
            if cont c1 then map_option ((#) ((b - 192) * 64 + (c1 - 128))) (utf8 r) else None
        | _ \<Rightarrow> None)
     else if 224 \<le> b \<and> b \<le> 239 then
       (case bs of
          c1 # c2 # r \<Rightarrow>
            if cont c1 \<and> cont c2 \<and> (b = 224 \<longrightarrow> 160 \<le> c1) \<and> (b = 237 \<longrightarrow> c1 \<le> 159)
            then map_option ((#) ((b - 224) * 4096 + (c1 - 128) * 64 + (c2 - 128))) (utf8 r)
            else None
        | _ \<Rightarrow> None)
     else if 240 \<le> b \<and> b \<le> 244 then
       (case bs of
          c1 # c2 # c3 # r \<Rightarrow>
            if cont c1 \<and> cont c2 \<and> cont c3 \<and> (b = 240 \<longrightarrow> 144 \<le> c1) \<and> (b = 244 \<longrightarrow> c1 \<le> 143)
            then map_option
                   ((#) ((b - 240) * 262144 + (c1 - 128) * 4096 + (c2 - 128) * 64 + (c3 - 128)))
                   (utf8 r)
            else None
        | _ \<Rightarrow> None)
     else None)"

definition decode_utf8 :: "bytes \<Rightarrow> pystr option" where
  "decode_utf8 data = utf8 (map of_char data)"

subsection \<open>\<^verbatim>\<open>str.strip\<close>, \<^verbatim>\<open>str.startswith\<close>, \<^verbatim>\<open>str.split\<close>\<close>

text \<open>The code points for which \<^verbatim>\<open>str.isspace\<close> holds; \<^verbatim>\<open>strip()\<close> removes them.\<close>

definition isspace :: "nat \<Rightarrow> bool" where
  "isspace c \<longleftrightarrow>
     (9 \<le> c \<and> c \<le> 13) \<or> (28 \<le> c \<and> c \<le> 32) \<or> c = 133 \<or> c = 160 \<or> c = 5760 \<or>
     (8192 \<le> c \<and> c \<le> 8202) \<or> c = 8232 \<or> c = 8233 \<or> c = 8239 \<or> c = 8287 \<or> c = 12288"

definition strip :: "pystr \<Rightarrow> pystr" where
  "strip s = rev (dropWhile isspace (rev (dropWhile isspace s)))"

definition startswith :: "pystr \<Rightarrow> pystr \<Rightarrow> bool" where
  "startswith s p \<longleftrightarrow> take (length p) s = p"

text \<open>
  \<^verbatim>\<open>s.split(sep)\<close> for a separator of one character. The result is never empty, so
  the second branch of the \<open>case\<close> is not reached.
\<close>

fun split :: "nat \<Rightarrow> pystr \<Rightarrow> pystr list" where
  "split sep [] = [[]]"
| "split sep (c # cs) =
    (if c = sep then [] # split sep cs
     else (case split sep cs of p # ps \<Rightarrow> (c # p) # ps | [] \<Rightarrow> [[c]]))"

text \<open>\<^verbatim>\<open>xs[1]\<close>, which raises \<^verbatim>\<open>IndexError\<close> on a list of fewer than two elements.\<close>

definition item1 :: "'b list \<Rightarrow> py_error + 'b" where
  "item1 xs = (case xs of _ # y # _ \<Rightarrow> Inr y | _ \<Rightarrow> Inl IndexError)"

subsection \<open>\<^verbatim>\<open>int(s)\<close> and \<^verbatim>\<open>float(s)\<close>\<close>

text \<open>
  \<^verbatim>\<open>int\<close> skips white space on both sides: the ASCII white space of C, and every
  white space character outside ASCII (the separators \<open>0x1C\<close> to \<open>0x1F\<close>, which
  \<^verbatim>\<open>strip\<close> removes, are not accepted).
\<close>

definition int_space :: "nat \<Rightarrow> bool" where
  "int_space c \<longleftrightarrow> (9 \<le> c \<and> c \<le> 13) \<or> c = 32 \<or> (127 \<le> c \<and> isspace c)"

text \<open>
  The value of a decimal digit. Outside ASCII, \<^verbatim>\<open>int\<close> accepts every character of
  the Unicode category Nd; that table belongs to the interpreter, and is the
  parameter \<open>dec\<close> here.
\<close>

definition digit_val :: "(nat \<Rightarrow> nat option) \<Rightarrow> nat \<Rightarrow> nat option" where
  "digit_val dec c =
     (if c < 127 then (if 48 \<le> c \<and> c \<le> 57 then Some (c - 48) else None)
      else if isspace c then None
      else (case dec c of Some d \<Rightarrow> if d < 10 then Some d else None | None \<Rightarrow> None))"

text \<open>
  The digits after the first one: single underscores between digits are allowed, and
  only white space may follow the last digit.
\<close>

fun int_digits :: "(nat \<Rightarrow> nat option) \<Rightarrow> nat \<Rightarrow> pystr \<Rightarrow> nat option" where
  "int_digits dec acc [] = Some acc"
| "int_digits dec acc (c # cs) =
    (case digit_val dec c of
       Some d \<Rightarrow> int_digits dec (10 * acc + d) cs
     | None \<Rightarrow>
         if c = 95 then
           (case cs of
              c' # cs' \<Rightarrow>
                (case digit_val dec c' of
                   Some d \<Rightarrow> int_digits dec (10 * acc + d) cs'
                 | None \<Rightarrow> None)
            | [] \<Rightarrow> None)
         else if list_all int_space (c # cs) then Some acc
         else None)"

definition int_unsigned :: "(nat \<Rightarrow> nat option) \<Rightarrow> pystr \<Rightarrow> nat option" where
  "int_unsigned dec s =
     (case s of
        [] \<Rightarrow> None
      | c # cs \<Rightarrow> (case digit_val dec c of Some d \<Rightarrow> int_digits dec d cs | None \<Rightarrow> None))"

text \<open>
  \<^verbatim>\<open>int(s)\<close> in base 10; \<open>None\<close> stands for \<^verbatim>\<open>ValueError\<close>. (A datagram is read
  with \<^verbatim>\<open>recvfrom(1024)\<close>, so the bound that recent interpreters put on the number
  of digits is never reached.)
\<close>

definition py_int :: "(nat \<Rightarrow> nat option) \<Rightarrow> pystr \<Rightarrow> int option" where
  "py_int dec s =
     (case dropWhile int_space s of
        [] \<Rightarrow> None
      | c # cs \<Rightarrow>
          if c = 45 then map_option (\<lambda>n. - int n) (int_unsigned dec cs)
          else if c = 43 then map_option int (int_unsigned dec cs)
          else map_option int (int_unsigned dec (c # cs)))"

text \<open>
  A Python float is a finite number, an infinity or a NaN. The finite ones are
  modelled as the reals they denote. The parser \<^verbatim>\<open>float(s)\<close> is a parameter of the
  control listener.
\<close>

datatype pyfloat = Finite real | PlusInf | MinusInf | NaN

text \<open>
  \<^verbatim>\<open>max(0.0, min(1.0, x))\<close>: \<^verbatim>\<open>min\<close> and \<^verbatim>\<open>max\<close> keep their first argument unless
  the second compares smaller (greater), so a NaN yields \<open>1.0\<close>.
\<close>

fun clamp01 :: "pyfloat \<Rightarrow> real" where
  "clamp01 (Finite x) = max 0 (min 1 x)"
| "clamp01 PlusInf = 1"
| "clamp01 MinusInf = 0"
| "clamp01 NaN = 1"

section \<open>The server object\<close>

text \<open>
  The fields of \<^verbatim>\<open>UDPWebcamServer\<close> that the listeners and the broadcast loop read
  or write. \<open>'a\<close> is the type of a client address.
\<close>

record 'a server =
  clients :: "'a set"
  sequence_number :: int
  max_packet_size :: int
  blush_color_rgb :: "int \<times> int \<times> int"
  blush_intensity :: real
  blush_blur :: int

text \<open>The values set by \<^verbatim>\<open>__init__\<close>.\<close>

definition init_server :: "'a server" where
  "init_server =
     \<lparr>clients = {}, sequence_number = 0, max_packet_size = 32768,
      blush_color_rgb = (235, 148, 146), blush_intensity = 1 / 4, blush_blur = 15\<rparr>"

text \<open>
  What handling one datagram, or one frame, leaves behind: the server, the datagrams
  passed to \<^verbatim>\<open>sendto\<close> without an error, in order, and the exception that left
  the handler, if any.
\<close>

record 'a outcome =
  state :: "'a server"
  sent :: "(bytes \<times> 'a) list"
  raised :: "py_error option"

text \<open>
  How a run of a loop over a finite sequence of inputs ended: the inputs were used up
  with the loop still running, the \<^verbatim>\<open>running\<close> flag was found cleared, the loop
  was left by \<^verbatim>\<open>break\<close>, or an exception left the loop.
\<close>

datatype loop_end = Exhausted | Stopped | Broke | Raised py_error

record 'a run =
  final :: "'a server"
  outbox :: "(bytes \<times> 'a) list"
  ended :: loop_end

definition prepend :: "(bytes \<times> 'a) list \<Rightarrow> 'a run \<Rightarrow> 'a run" where
  "prepend out r = r\<lparr>outbox := out @ outbox r\<rparr>"

text \<open>
  What \<^verbatim>\<open>recvfrom(1024)\<close> does in one iteration of a listener: it times out, it
  raises another error, or it returns a datagram and the sender's address.
\<close>

datatype 'a recv = Timeout | RecvError | Datagram bytes 'a

section \<open>\<^verbatim>\<open>listen_for_clients\<close>\<close>

text \<open>
  The body of the \<^verbatim>\<open>try\<close> after \<^verbatim>\<open>recvfrom\<close>. \<open>send_ok\<close> tells whether the
  \<^verbatim>\<open>sendto\<close> of the confirmation succeeds.
\<close>

definition client_message :: "'a server \<Rightarrow> bytes \<Rightarrow> 'a \<Rightarrow> bool \<Rightarrow> 'a outcome" where
  "client_message st data addr send_ok =
     (case decode_utf8 data of
        None \<Rightarrow> \<lparr>state = st, sent = [], raised = Some UnicodeDecodeError\<rparr>
      | Some message \<Rightarrow>
          if addr \<notin> clients st \<and> message = text_of ''REGISTER'' then
            (let st' = st\<lparr>clients := insert addr (clients st)\<rparr> in
             if send_ok then \<lparr>state = st', sent = [(''REGISTERED'', addr)], raised = None\<rparr>
             else \<lparr>state = st', sent = [], raised = Some SocketError\<rparr>)
          else if message = text_of ''UNREGISTER'' \<and> addr \<in> clients st then
            \<lparr>state = st\<lparr>clients := clients st - {addr}\<rparr>, sent = [], raised = None\<rparr>
          else \<lparr>state = st, sent = [], raised = None\<rparr>)"

text \<open>
  The loop, over the sequence of what each iteration meets: the value of
  \<^verbatim>\<open>self.running\<close> at the head of the loop, the result of \<^verbatim>\<open>recvfrom\<close>, and
  whether a reply can be sent. A timeout continues the loop; every other exception
  reaches \<^verbatim>\<open>except Exception\<close>, which ends in \<^verbatim>\<open>break\<close>.
\<close>

fun listen_for_clients :: "'a server \<Rightarrow> (bool \<times> 'a recv \<times> bool) list \<Rightarrow> 'a run" where
  "listen_for_clients st [] = \<lparr>final = st, outbox = [], ended = Exhausted\<rparr>"
| "listen_for_clients st ((running, r, send_ok) # evs) =
    (if \<not> running then \<lparr>final = st, outbox = [], ended = Stopped\<rparr>
     else
       (case r of
          Timeout \<Rightarrow> listen_for_clients st evs
        | RecvError \<Rightarrow> \<lparr>final = st, outbox = [], ended = Broke\<rparr>
        | Datagram data addr \<Rightarrow>
            (let res = client_message st data addr send_ok in
             case raised res of
               Some e \<Rightarrow> \<lparr>final = state res, outbox = sent res, ended = Broke\<rparr>
             | None \<Rightarrow> prepend (sent res) (listen_for_clients (state res) evs))))"

section \<open>\<^verbatim>\<open>listen_for_controls\<close>\<close>

text \<open>
  \<^verbatim>\<open>r, g, b = map(int, command.split(":")[1].split(","))\<close>: the second field of the
  command, cut at the commas, must have three parts, each an integer literal.
  Every failure is an exception for the same handler.
\<close>

definition parse_color :: "(nat \<Rightarrow> nat option) \<Rightarrow> pystr \<Rightarrow> py_error + int \<times> int \<times> int" where
  "parse_color dec command =
     (case item1 (split 58 command) of
        Inl e \<Rightarrow> Inl e
      | Inr rgb_str \<Rightarrow>
          (case map (py_int dec) (split 44 rgb_str) of
             [Some r, Some g, Some b] \<Rightarrow> Inr (r, g, b)
           | _ \<Rightarrow> Inl ValueError))"

text \<open>The reply of an \<^verbatim>\<open>except\<close> branch; an error of this \<^verbatim>\<open>sendto\<close> leaves the handler.\<close>

definition error_reply :: "'a server \<Rightarrow> bytes \<Rightarrow> 'a \<Rightarrow> (bytes \<Rightarrow> bool) \<Rightarrow> 'a outcome" where
  "error_reply st token addr send_ok =
     (if send_ok token then \<lparr>state = st, sent = [(token, addr)], raised = None\<rparr>
      else \<lparr>state = st, sent = [], raised = Some SocketError\<rparr>)"

text \<open>
  The reply at the end of a \<^verbatim>\<open>try\<close> block, after the setting was stored: when this
  \<^verbatim>\<open>sendto\<close> fails, the \<^verbatim>\<open>except\<close> branch of the block sends the error token.
\<close>

definition ok_reply :: "'a server \<Rightarrow> bytes \<Rightarrow> bytes \<Rightarrow> 'a \<Rightarrow> (bytes \<Rightarrow> bool) \<Rightarrow> 'a outcome" where
  "ok_reply st token err_token addr send_ok =
     (if send_ok token then \<lparr>state = st, sent = [(token, addr)], raised = None\<rparr>
      else error_reply st err_token addr send_ok)"

text \<open>
  The dispatch on the stripped command. \<open>send_ok\<close> tells, for each reply, whether its
  \<^verbatim>\<open>sendto\<close> succeeds.
\<close>

definition control_command ::
  "(nat \<Rightarrow> nat option) \<Rightarrow> (pystr \<Rightarrow> pyfloat option) \<Rightarrow> 'a server \<Rightarrow> pystr \<Rightarrow> 'a \<Rightarrow>
     (bytes \<Rightarrow> bool) \<Rightarrow> 'a outcome" where
  "control_command dec float_of st command addr send_ok =
     (if startswith command (text_of ''COLOR:'') then
        (case parse_color dec command of
           Inr (r, g, b) \<Rightarrow>
             ok_reply (st\<lparr>blush_color_rgb := (r, g, b)\<rparr>) ''COLOR_OK'' ''COLOR_ERROR'' addr send_ok
         | Inl e \<Rightarrow> error_reply st ''COLOR_ERROR'' addr send_ok)
      else if startswith command (text_of ''INTENSITY:'') then
        (case item1 (split 58 command) of
           Inr field \<Rightarrow>
             (case float_of field of
                Some x \<Rightarrow>
                  ok_reply (st\<lparr>blush_intensity := clamp01 x\<rparr>)
                    ''INTENSITY_OK'' ''INTENSITY_ERROR'' addr send_ok
              | None \<Rightarrow> error_reply st ''INTENSITY_ERROR'' addr send_ok)
         | Inl e \<Rightarrow> error_reply st ''INTENSITY_ERROR'' addr send_ok)
      else if startswith command (text_of ''BLUR:'') then
        (case item1 (split 58 command) of
           Inr field \<Rightarrow>
             (case py_int dec field of
                Some blur \<Rightarrow>
                  ok_reply (st\<lparr>blush_blur := max 5 (min 50 blur)\<rparr>)
                    ''BLUR_OK'' ''BLUR_ERROR'' addr send_ok
              | None \<Rightarrow> error_reply st ''BLUR_ERROR'' addr send_ok)
         | Inl e \<Rightarrow> error_reply st ''BLUR_ERROR'' addr send_ok)
      else \<lparr>state = st, sent = [], raised = None\<rparr>)"

text \<open>The body of the outer \<^verbatim>\<open>try\<close> after \<^verbatim>\<open>recvfrom\<close>: decode, strip, dispatch.\<close>

definition control_message ::
  "(nat \<Rightarrow> nat option) \<Rightarrow> (pystr \<Rightarrow> pyfloat option) \<Rightarrow> 'a server \<Rightarrow> bytes \<Rightarrow> 'a \<Rightarrow>
     (bytes \<Rightarrow> bool) \<Rightarrow> 'a outcome" where
  "control_message dec float_of st data addr send_ok =
     (case decode_utf8 data of
        None \<Rightarrow> \<lparr>state = st, sent = [], raised = Some UnicodeDecodeError\<rparr>
      | Some message \<Rightarrow> control_command dec float_of st (strip message) addr send_ok)"

text \<open>
  The loop: here \<^verbatim>\<open>except Exception\<close> only logs, and the loop goes on to its next
  iteration.
\<close>

fun listen_for_controls ::
  "(nat \<Rightarrow> nat option) \<Rightarrow> (pystr \<Rightarrow> pyfloat option) \<Rightarrow> 'a server \<Rightarrow>
     (bool \<times> 'a recv \<times> (bytes \<Rightarrow> bool)) list \<Rightarrow> 'a run" where
  "listen_for_controls dec float_of st [] = \<lparr>final = st, outbox = [], ended = Exhausted\<rparr>"
| "listen_for_controls dec float_of st ((running, r, send_ok) # evs) =
    (if \<not> running then \<lparr>final = st, outbox = [], ended = Stopped\<rparr>
     else
       (case r of
          Timeout \<Rightarrow> listen_for_controls dec float_of st evs
        | RecvError \<Rightarrow> listen_for_controls dec float_of st evs
        | Datagram data addr \<Rightarrow>
            (let res = control_message dec float_of st data addr send_ok in
             prepend (sent res) (listen_for_controls dec float_of (state res) evs))))"

section \<open>\<^verbatim>\<open>send_frames\<close>\<close>

subsection \<open>Packets\<close>

text \<open>
  \<^verbatim>\<open>math.ceil(frame_size / payload_size)\<close>. The quotient of the source is a double;
  here it is the exact quotient. The two have the same ceiling when both operands are
  below \<open>2\<^sup>5\<^sup>3\<close>, and the theorems about the number of packets are stated in that range.
\<close>

definition ceil_truediv :: "int \<Rightarrow> int \<Rightarrow> py_error + int" where
  "ceil_truediv a b =
     (if b = 0 then Inl ZeroDivisionError else Inr \<lceil>real_of_int a / real_of_int b\<rceil>)"

text \<open>\<^verbatim>\<open>range(n)\<close>.\<close>

definition py_range :: "int \<Rightarrow> int list" where
  "py_range n = [0..n - 1]"

text \<open>\<^verbatim>\<open>xs[start:stop]\<close>: an index below zero counts from the end, and both are cut to the length.\<close>

definition slice_index :: "int \<Rightarrow> int \<Rightarrow> int" where
  "slice_index n i = (if i < 0 then max 0 (i + n) else min i n)"

definition py_slice :: "'b list \<Rightarrow> int \<Rightarrow> int \<Rightarrow> 'b list" where
  "py_slice xs start stop =
     (let n = int (length xs); s = slice_index n start; e = slice_index n stop
      in take (nat (e - s)) (drop (nat s) xs))"

text \<open>One unsigned 32-bit field in network byte order.\<close>

definition be32 :: "int \<Rightarrow> bytes" where
  "be32 n = [char_of (n div 16777216), char_of (n div 65536), char_of (n div 256), char_of n]"

text \<open>
  \<^verbatim>\<open>struct.pack("!III", a, b, c)\<close>, which raises \<^verbatim>\<open>struct.error\<close> unless each
  argument is in the range of an unsigned 32-bit integer.
\<close>

definition u32 :: "int \<Rightarrow> bool" where
  "u32 n \<longleftrightarrow> 0 \<le> n \<and> n < 4294967296"

definition struct_pack_III :: "int \<Rightarrow> int \<Rightarrow> int \<Rightarrow> py_error + bytes" where
  "struct_pack_III a b c =
     (if u32 a \<and> u32 b \<and> u32 c then Inr (be32 a @ be32 b @ be32 c) else Inl StructError)"

text \<open>The reading of such a field, as a receiver does it with \<^verbatim>\<open>struct.unpack("!I", ...)\<close>.\<close>

definition unpack_u32 :: "bytes \<Rightarrow> int" where
  "unpack_u32 bs = foldl (\<lambda>acc c. acc * 256 + of_char c) 0 (take 4 bs)"

text \<open>\<^verbatim>\<open>frame_data[start_pos:end_pos]\<close> for one \<^verbatim>\<open>packet_index\<close>.\<close>

definition packet_payload :: "bytes \<Rightarrow> int \<Rightarrow> int \<Rightarrow> bytes" where
  "packet_payload frame_data payload_size packet_index =
     (let frame_size = int (length frame_data);
          start_pos = packet_index * payload_size;
          end_pos = min (start_pos + payload_size) frame_size
      in py_slice frame_data start_pos end_pos)"

text \<open>\<^verbatim>\<open>udp_packet = header + frame_data[start_pos:end_pos]\<close>.\<close>

definition udp_packet :: "int \<Rightarrow> int \<Rightarrow> bytes \<Rightarrow> int \<Rightarrow> int \<Rightarrow> py_error + bytes" where
  "udp_packet seq total_packets frame_data payload_size packet_index =
     (case struct_pack_III seq total_packets packet_index of
        Inl e \<Rightarrow> Inl e
      | Inr header \<Rightarrow> Inr (header @ packet_payload frame_data payload_size packet_index))"

subsection \<open>The fan-out of one frame\<close>

text \<open>
  The inner loop, over the packet indices still to send to one client. \<open>send_ok i\<close>
  tells whether the \<^verbatim>\<open>sendto\<close> of packet \<open>i\<close> succeeds. The loop stops at the first
  exception, of \<^verbatim>\<open>struct.pack\<close> or of \<^verbatim>\<open>sendto\<close>; the result is the packets sent
  and that exception.
\<close>

fun send_packets ::
  "(int \<Rightarrow> bool) \<Rightarrow> int \<Rightarrow> int \<Rightarrow> bytes \<Rightarrow> int \<Rightarrow> int list \<Rightarrow> bytes list \<times> py_error option" where
  "send_packets send_ok seq total_packets frame_data payload_size [] = ([], None)"
| "send_packets send_ok seq total_packets frame_data payload_size (i # rest) =
    (case udp_packet seq total_packets frame_data payload_size i of
       Inl e \<Rightarrow> ([], Some e)
     | Inr p \<Rightarrow>
         if send_ok i then
           (case send_packets send_ok seq total_packets frame_data payload_size rest of
              (ps, r) \<Rightarrow> (p # ps, r))
         else ([], Some SocketError))"

text \<open>
  The outer loop, over the clients of the snapshot in the order of the iteration.
  Both \<^verbatim>\<open>except\<close> branches remove the client from \<^verbatim>\<open>self.clients\<close>.
\<close>

fun fan_out ::
  "('a \<Rightarrow> int \<Rightarrow> bool) \<Rightarrow> int \<Rightarrow> int \<Rightarrow> bytes \<Rightarrow> int \<Rightarrow> 'a list \<Rightarrow> 'a set \<Rightarrow>
     'a set \<times> (bytes \<times> 'a) list" where
  "fan_out send_ok seq total_packets frame_data payload_size [] cl = (cl, [])"
| "fan_out send_ok seq total_packets frame_data payload_size (client_addr # rest) cl =
    (case send_packets (send_ok client_addr) seq total_packets frame_data payload_size (py_range total_packets) of
       (ps, r) \<Rightarrow>
         (case fan_out send_ok seq total_packets frame_data payload_size rest
                 (case r of None \<Rightarrow> cl | Some e \<Rightarrow> cl - {client_addr}) of
            (cl', out) \<Rightarrow> (cl', map (\<lambda>p. (p, client_addr)) ps @ out)))"

subsection \<open>The loop\<close>

text \<open>
  What the camera and the encoder give to one iteration: no frame
  (\<^verbatim>\<open>ret\<close> is false), a frame that \<^verbatim>\<open>cv2.imencode\<close> does not encode, or the encoded
  bytes.
\<close>

datatype capture = Dropped | EncodeFailed | Encoded bytes

text \<open>
  One iteration. \<open>iter\<close> gives the order in which Python iterates over a set;
  \<open>send_ok c i\<close> tells whether the \<^verbatim>\<open>sendto\<close> of packet \<open>i\<close> to client \<open>c\<close> succeeds.
  The division is outside the \<^verbatim>\<open>try\<close>, so its exception leaves the loop.
\<close>

definition broadcast_iteration ::
  "('a set \<Rightarrow> 'a list) \<Rightarrow> ('a \<Rightarrow> int \<Rightarrow> bool) \<Rightarrow> 'a server \<Rightarrow> capture \<Rightarrow> 'a outcome" where
  "broadcast_iteration iter send_ok st cap =
     (case cap of
        Dropped \<Rightarrow> \<lparr>state = st, sent = [], raised = None\<rparr>
      | EncodeFailed \<Rightarrow> \<lparr>state = st, sent = [], raised = None\<rparr>
      | Encoded frame_data \<Rightarrow>
          (let frame_size = int (length frame_data);
               st1 = st\<lparr>sequence_number := sequence_number st + 1\<rparr>;
               header_size = 12;
               payload_size = max_packet_size st1 - header_size
           in case ceil_truediv frame_size payload_size of
                Inl e \<Rightarrow> \<lparr>state = st1, sent = [], raised = Some e\<rparr>
              | Inr total_packets \<Rightarrow>
                  (case fan_out send_ok (sequence_number st1) total_packets frame_data payload_size
                          (iter (clients st1)) (clients st1) of
                     (cl, out) \<Rightarrow> \<lparr>state = st1\<lparr>clients := cl\<rparr>, sent = out, raised = None\<rparr>)))"

text \<open>
  The loop over the sequence of what each iteration meets: the value of
  \<^verbatim>\<open>self.running\<close>, the capture, and the fate of each \<^verbatim>\<open>sendto\<close>.
\<close>

fun send_frames ::
  "('a set \<Rightarrow> 'a list) \<Rightarrow> 'a server \<Rightarrow> (bool \<times> capture \<times> ('a \<Rightarrow> int \<Rightarrow> bool)) list \<Rightarrow> 'a run" where
  "send_frames iter st [] = \<lparr>final = st, outbox = [], ended = Exhausted\<rparr>"
| "send_frames iter st ((running, cap, send_ok) # ticks) =
    (if \<not> running then \<lparr>final = st, outbox = [], ended = Stopped\<rparr>
     else
       (let res = broadcast_iteration iter send_ok st cap in
        case raised res of
          Some e \<Rightarrow> \<lparr>final = state res, outbox = sent res, ended = Raised e\<rparr>
        | None \<Rightarrow> prepend (sent res) (send_frames iter (state res) ticks)))"

text \<open>A network on which every \<^verbatim>\<open>sendto\<close> succeeds.\<close>

definition reliable :: "'a \<Rightarrow> int \<Rightarrow> bool" where
  "reliable c i = True"

definition replies_ok :: "bytes \<Rightarrow> bool" where
  "replies_ok token = True"

text \<open>The packets of a broadcast that went to one client, in the order sent.\<close>

definition sent_to :: "'a \<Rightarrow> (bytes \<times> 'a) list \<Rightarrow> bytes list" where
  "sent_to c out = map fst (filter (\<lambda>x. snd x = c) out)"

text \<open>Whether an iteration has an encoded frame to send.\<close>

fun encoded :: "capture \<Rightarrow> bool" where
  "encoded (Encoded frame_data) = True"
| "encoded _ = False"

text \<open>
  Two interpreter tables for the evaluation of commands that consult neither: no decimal
  digit outside ASCII, and no float literal.
\<close>

definition ascii_digits :: "nat \<Rightarrow> nat option" where
  "ascii_digits c = None"

definition no_float :: "pystr \<Rightarrow> pyfloat option" where
  "no_float s = None"

text \<open>
  The characters that can occur in a string that \<^verbatim>\<open>int\<close> accepts: white space, a
  sign, an underscore, a digit.
\<close>

definition int_char :: "(nat \<Rightarrow> nat option) \<Rightarrow> nat \<Rightarrow> bool" where
  "int_char dec c \<longleftrightarrow> int_space c \<or> c = 43 \<or> c = 45 \<or> c = 95 \<or> digit_val dec c \<noteq> None"

section \<open>The registration listener\<close>

lemma decode_REGISTER: "decode_utf8 ''REGISTER'' = Some (text_of ''REGISTER'')"
  by (simp add: decode_utf8_def text_of_def)

lemma decode_UNREGISTER: "decode_utf8 ''UNREGISTER'' = Some (text_of ''UNREGISTER'')"
  by (simp add: decode_utf8_def text_of_def)

lemma REGISTER_neq_UNREGISTER: "text_of ''REGISTER'' \<noteq> text_of ''UNREGISTER''"
  by (simp add: text_of_def)

lemma client_message_REGISTER:
  "client_message st ''REGISTER'' a True =
     (if a \<in> clients st then \<lparr>state = st, sent = [], raised = None\<rparr>
      else \<lparr>state = st\<lparr>clients := insert a (clients st)\<rparr>, sent = [(''REGISTERED'', a)],
             raised = None\<rparr>)"
  by (simp add: client_message_def decode_REGISTER REGISTER_neq_UNREGISTER)

lemma decode_FF: "decode_utf8 [CHR 0xFF] = None"
  by (simp add: decode_utf8_def)

text \<open>
  C3, as the code has it. A \<^verbatim>\<open>REGISTER\<close> from an address that is already in the
  registry changes nothing and is not answered: the handler adds the address and sends
  \<^verbatim>\<open>REGISTERED\<close> only under the guard \<^verbatim>\<open>addr not in self.clients\<close>. So of two
  successive \<^verbatim>\<open>REGISTER\<close> messages from a new address, the first adds the address
  and is confirmed, and the second leaves the registry as it is, with one membership of
  the address, and gets no reply.
\<close>

theorem register_confirmed_once:
  "(a \<in> clients st \<longrightarrow>
      client_message st ''REGISTER'' a send_ok = \<lparr>state = st, sent = [], raised = None\<rparr>) \<and>
   (a \<notin> clients st \<longrightarrow>
      listen_for_clients st
        [(True, Datagram ''REGISTER'' a, True), (True, Datagram ''REGISTER'' a, True)] =
      \<lparr>final = st\<lparr>clients := insert a (clients st)\<rparr>, outbox = [(''REGISTERED'', a)],
        ended = Exhausted\<rparr>)"
  by (simp add: client_message_REGISTER prepend_def)
     (simp add: client_message_def decode_REGISTER REGISTER_neq_UNREGISTER)

theorem register_confirmed_once_witness:
  "client_message (init_server\<lparr>clients := {7::nat}\<rparr>) ''REGISTER'' 7 True =
     \<lparr>state = init_server\<lparr>clients := {7}\<rparr>, sent = [], raised = None\<rparr> \<and>
   listen_for_clients (init_server :: nat server)
     [(True, Datagram ''REGISTER'' 7, True), (True, Datagram ''REGISTER'' 7, True)] =
     \<lparr>final = init_server\<lparr>clients := {7}\<rparr>, outbox = [(''REGISTERED'', 7)], ended = Exhausted\<rparr>"
  using register_confirmed_once [of 7 "init_server\<lparr>clients := {7::nat}\<rparr>" True]
    register_confirmed_once [of "7::nat" init_server True]
  by (simp add: init_server_def)

text \<open>
  C3 as stated asks for a \<^verbatim>\<open>REGISTERED\<close> reply to every \<^verbatim>\<open>REGISTER\<close>. Two
  \<^verbatim>\<open>REGISTER\<close> messages from address 7 to a new server are answered by one reply only.
\<close>

theorem repeated_register_counterexample:
  "outbox (listen_for_clients (init_server :: nat server)
     [(True, Datagram ''REGISTER'' 7, True), (True, Datagram ''REGISTER'' 7, True)]) =
   [(''REGISTERED'', 7)]"
  by (simp add: client_message_REGISTER prepend_def init_server_def)

text \<open>
  C4, at the input on which the code departs from it. A datagram that is not UTF-8
  (the single byte \<open>0xFF\<close>) raises \<^verbatim>\<open>UnicodeDecodeError\<close>, which is caught by
  \<^verbatim>\<open>except Exception\<close>; that handler ends in \<^verbatim>\<open>break\<close>, so the loop is left while
  \<^verbatim>\<open>self.running\<close> is still set, and no later datagram is received.
\<close>

theorem decode_error_ends_listener:
  "listen_for_clients st ((True, Datagram [CHR 0xFF] a, send_ok) # evs) =
     \<lparr>final = st, outbox = [], ended = Broke\<rparr>"
  by (simp add: client_message_def decode_FF)

theorem decode_error_ends_listener_witness:
  "listen_for_clients (init_server :: nat server)
     [(True, Datagram [CHR 0xFF] 1, True), (True, Datagram ''REGISTER'' 2, True)] =
     \<lparr>final = init_server, outbox = [], ended = Broke\<rparr>"
  using decode_error_ends_listener [of "init_server :: nat server" 1 True
      "[(True, Datagram ''REGISTER'' 2, True)]"]
  by simp

text \<open>The control listener, on the same datagram, goes on to its next iteration.\<close>

lemma decode_error_keeps_control_listener:
  "listen_for_controls dec float_of st ((True, Datagram [CHR 0xFF] a, send_ok) # evs) =
     listen_for_controls dec float_of st evs"
  by (simp add: control_message_def decode_FF prepend_def)

subsection \<open>Exact matching, and the stripping of control commands\<close>

lemma dropWhile_all: "list_all P xs \<Longrightarrow> dropWhile P (xs @ ys) = dropWhile P ys"
  by (induction xs) simp_all

lemma strip_leading: "list_all isspace pre \<Longrightarrow> strip (pre @ s) = strip s"
  by (simp add: strip_def dropWhile_all)

lemma strip_trailing:
  assumes "list_all isspace post"
  shows "strip (s @ post) = strip s"
proof (cases "list_all isspace s")
  case True
  with assms have both: "dropWhile isspace (s @ post) = []" "dropWhile isspace s = []"
    by (auto simp: list_all_iff dropWhile_eq_Nil_conv)
  show ?thesis by (simp only: strip_def both)
next
  case False
  then obtain x where "x \<in> set s" "\<not> isspace x" by (auto simp: list_all_iff)
  then have "dropWhile isspace (s @ post) = dropWhile isspace s @ post"
    by (simp add: dropWhile_append1)
  moreover from assms have "list_all isspace (rev post)" by (simp add: list_all_iff)
  ultimately show ?thesis by (simp add: strip_def dropWhile_all)
qed

lemma strip_padding:
  "list_all isspace pre \<Longrightarrow> list_all isspace post \<Longrightarrow> strip (pre @ s @ post) = strip s"
  by (simp add: strip_leading strip_trailing)

text \<open>
  C10. The registration listener compares the decoded datagram with the two commands as
  they are. A datagram that is answered, or that adds its sender to the registry, decodes
  to exactly \<^verbatim>\<open>REGISTER\<close>; one that removes its sender decodes to exactly
  \<^verbatim>\<open>UNREGISTER\<close>; every other datagram, among them \<^verbatim>\<open>REGISTER\<close> with white space
  or a newline around it, leaves the server as it is and gets no reply. The control
  listener strips the decoded text first: white space before and after a command does
  not change what the command does.
\<close>

theorem listeners_matching:
  "(sent (client_message st data a send_ok) \<noteq> [] \<or>
      a \<notin> clients st \<and> a \<in> clients (state (client_message st data a send_ok))
      \<longrightarrow> decode_utf8 data = Some (text_of ''REGISTER'')) \<and>
   (a \<in> clients st \<and> a \<notin> clients (state (client_message st data a send_ok))
      \<longrightarrow> decode_utf8 data = Some (text_of ''UNREGISTER'')) \<and>
   (decode_utf8 data \<noteq> Some (text_of ''REGISTER'') \<and>
    decode_utf8 data \<noteq> Some (text_of ''UNREGISTER'')
      \<longrightarrow> state (client_message st data a send_ok) = st \<and>
          sent (client_message st data a send_ok) = []) \<and>
   (decode_utf8 data = Some (pre @ msg @ post) \<and> list_all isspace pre \<and> list_all isspace post \<and>
    decode_utf8 data' = Some msg
      \<longrightarrow> control_message dec float_of st data a reply_ok =
          control_message dec float_of st data' a reply_ok)"
  by (auto simp: client_message_def control_message_def strip_padding Let_def
           split: option.splits if_splits)


section \<open>The broadcast loop\<close>

subsection \<open>Ranges\<close>

lemma py_range_nonpos: "n \<le> 0 \<Longrightarrow> py_range n = []"
  by (simp add: py_range_def)

lemma length_py_range: "length (py_range n) = nat n"
  by (simp add: py_range_def)

lemma nth_py_range: "k < nat n \<Longrightarrow> py_range n ! k = int k"
  by (simp add: py_range_def)

lemma py_range_nat: "py_range n = map int [0..<nat n]"
  by (rule nth_equalityI) (simp_all add: length_py_range nth_py_range)

lemma set_py_range: "set (py_range n) = {i. 0 \<le> i \<and> i < n}"
  by (auto simp: py_range_def)

lemma take_py_range: "0 \<le> j \<Longrightarrow> j \<le> n \<Longrightarrow> take (nat j) (py_range n) = py_range j"
  by (simp add: py_range_nat take_map)

subsection \<open>The header\<close>

lemma length_be32: "length (be32 n) = 4"
  by (simp add: be32_def)

lemma be32_digits:
  fixes n :: int
  assumes "0 \<le> n" "n < 4294967296"
  shows "16777216 * (n div 16777216 mod 256) + 65536 * (n div 65536 mod 256) +
         n div 256 mod 256 * 256 + n mod 256 = n"
proof -
  have d2: "n div 65536 = n div 256 div 256"
    using zdiv_zmult2_eq [of 256 n 256] by simp
  have d3: "n div 16777216 = n div 65536 div 256"
    using zdiv_zmult2_eq [of 256 n 65536] by simp
  have top: "n div 16777216 mod 256 = n div 16777216"
  proof -
    from assms have "0 \<le> n div 16777216" "n div 16777216 < 256" by arith+
    then show ?thesis by simp
  qed
  have e1: "n = 256 * (n div 256) + n mod 256" by simp
  have e2: "n div 256 = 256 * (n div 65536) + n div 256 mod 256" by (simp add: d2)
  have e3: "n div 65536 = 256 * (n div 16777216) + n div 65536 mod 256" by (simp add: d3)
  from e1 e2 e3 top show ?thesis by linarith
qed

lemma unpack_be32: "u32 n \<Longrightarrow> unpack_u32 (be32 n @ rest) = n"
  unfolding unpack_u32_def be32_def u32_def
  by (simp add: be32_digits)


subsection \<open>The number of packets\<close>

lemma ceil_truediv_div: "b \<noteq> 0 \<Longrightarrow> ceil_truediv a b = Inr (- (- a div b))"
  by (simp add: ceil_truediv_def ceiling_divide_eq_div)

lemma ceil_truediv_zero: "b \<noteq> 0 \<Longrightarrow> ceil_truediv 0 b = Inr 0"
  by (simp add: ceil_truediv_def)

lemma ceil_covers:
  fixes L P :: int
  assumes "0 < P"
  shows "L \<le> \<lceil>real_of_int L / real_of_int P\<rceil> * P"
proof -
  from assms have p: "0 < real_of_int P" by simp
  have "real_of_int L / real_of_int P \<le> real_of_int \<lceil>real_of_int L / real_of_int P\<rceil>"
    by (rule le_of_int_ceiling)
  then have "real_of_int L \<le> real_of_int \<lceil>real_of_int L / real_of_int P\<rceil> * real_of_int P"
    unfolding pos_divide_le_eq [OF p] .
  then have "real_of_int L \<le> real_of_int (\<lceil>real_of_int L / real_of_int P\<rceil> * P)"
    by simp
  then show ?thesis by (simp only: of_int_le_iff)
qed

lemma ceil_nonneg:
  fixes L P :: int
  assumes "0 \<le> L" "0 < P"
  shows "0 \<le> \<lceil>real_of_int L / real_of_int P\<rceil>"
proof -
  from assms have "0 \<le> real_of_int L / real_of_int P" by simp
  then have "- 1 < real_of_int L / real_of_int P" by linarith
  then show ?thesis by (simp only: zero_le_ceiling)
qed

lemma ceil_neg_divisor:
  fixes L P :: int
  assumes "0 \<le> L" "P < 0"
  shows "\<lceil>real_of_int L / real_of_int P\<rceil> \<le> 0"
proof -
  from assms have "real_of_int L / real_of_int P \<le> 0"
    by (simp add: divide_nonneg_neg)
  then show ?thesis by (simp add: ceiling_le_iff)
qed

subsection \<open>The payload\<close>

lemma py_slice_chunk:
  assumes "0 \<le> s" "0 < P"
  shows "py_slice xs s (min (s + P) (int (length xs))) = take (nat P) (drop (nat s) xs)"
proof (cases "s \<le> int (length xs)")
  case True
  with assms have "py_slice xs s (min (s + P) (int (length xs))) =
      take (nat (min (s + P) (int (length xs)) - s)) (drop (nat s) xs)"
    by (simp add: py_slice_def slice_index_def Let_def min_def)
  also have "\<dots> = take (nat P) (drop (nat s) xs)"
  proof (cases "s + P \<le> int (length xs)")
    case True
    then show ?thesis by (simp add: min_def)
  next
    case False
    with \<open>s \<le> int (length xs)\<close> assms show ?thesis by (simp add: min_def)
  qed
  finally show ?thesis .
next
  case False
  with assms have "py_slice xs s (min (s + P) (int (length xs))) = []"
    by (simp add: py_slice_def slice_index_def Let_def min_def)
  moreover from False assms have "drop (nat s) xs = []" by simp
  ultimately show ?thesis by simp
qed

lemma packet_payload_take_drop:
  assumes "0 < P" "0 \<le> i"
  shows "packet_payload data P i = take (nat P) (drop (nat i * nat P) data)"
proof -
  from assms have ip: "0 \<le> i * P" by simp
  have nip: "nat (i * P) = nat i * nat P"
    using assms by (simp add: nat_mult_distrib)
  have "packet_payload data P i = py_slice data (i * P) (min (i * P + P) (int (length data)))"
    by (simp add: packet_payload_def Let_def)
  also have "\<dots> = take (nat P) (drop (nat (i * P)) data)"
    using ip assms(1) by (rule py_slice_chunk)
  finally show ?thesis by (simp only: nip)
qed

lemma length_packet_payload: "0 < P \<Longrightarrow> 0 \<le> i \<Longrightarrow> int (length (packet_payload data P i)) \<le> P"
  by (simp add: packet_payload_take_drop)

lemma concat_chunks: "concat (map (\<lambda>k. take p (drop (k * p) xs)) [0..<n]) = take (n * p) xs"
proof (induction n)
  case 0
  show ?case by simp
next
  case (Suc n)
  have "take (Suc n * p) xs = take (n * p + p) xs" by (simp add: add.commute)
  also have "\<dots> = take (n * p) xs @ take p (drop (n * p) xs)" by (rule take_add)
  finally show ?case using Suc by simp
qed

lemma payloads_concat:
  assumes "0 < P" "int (length data) \<le> n * P"
  shows "concat (map (packet_payload data P) (py_range n)) = data"
proof -
  have "map (packet_payload data P) (py_range n) =
        map (\<lambda>k. take (nat P) (drop (k * nat P) data)) [0..<nat n]"
    using assms(1) by (simp add: py_range_nat packet_payload_take_drop)
  then have "concat (map (packet_payload data P) (py_range n)) = take (nat n * nat P) data"
    by (simp add: concat_chunks)
  moreover have "length data \<le> nat n * nat P"
  proof -
    from assms have "0 \<le> n * P" by linarith
    with assms have "nat (n * P) = nat n * nat P"
      by (metis nat_mult_distrib nat_mult_distrib_neg linorder_le_cases mult.commute
          zero_less_mult_pos2 less_le_not_le mult_zero_left nat_0 order_le_less)
    with assms show ?thesis by linarith
  qed
  ultimately show ?thesis by simp
qed


subsection \<open>One packet\<close>

lemma udp_packet_Inr:
  "udp_packet seq n data P i = Inr p \<longleftrightarrow>
     u32 seq \<and> u32 n \<and> u32 i \<and> p = be32 seq @ be32 n @ be32 i @ packet_payload data P i"
  by (auto simp: udp_packet_def struct_pack_III_def)

lemma udp_packet_ok:
  "u32 seq \<Longrightarrow> u32 n \<Longrightarrow> 0 \<le> i \<Longrightarrow> i < n \<Longrightarrow>
     udp_packet seq n data P i = Inr (be32 seq @ be32 n @ be32 i @ packet_payload data P i)"
  by (simp add: udp_packet_def struct_pack_III_def u32_def)

subsection \<open>The packets for one client\<close>

lemma send_packets_prefix:
  "send_packets ok seq n data P idxs = (ps, r) \<Longrightarrow>
     length ps \<le> length idxs \<and>
     map Inr ps = map (udp_packet seq n data P) (take (length ps) idxs)"
proof (induction idxs arbitrary: ps r)
  case Nil
  then show ?case by simp
next
  case (Cons i idxs)
  then show ?case
    by (auto split: sum.splits if_splits prod.splits)
qed

lemma send_packets_None:
  "send_packets ok seq n data P idxs = (ps, None) \<Longrightarrow> length ps = length idxs"
proof (induction idxs arbitrary: ps)
  case Nil
  then show ?case by simp
next
  case (Cons i idxs)
  then show ?case
    by (auto split: sum.splits if_splits prod.splits)
qed

lemma send_packets_SocketError:
  "send_packets ok seq n data P idxs = (ps, Some SocketError) \<Longrightarrow>
     length ps < length idxs \<and> \<not> ok (idxs ! length ps) \<and>
     (\<forall>k < length ps. ok (idxs ! k))"
proof (induction idxs arbitrary: ps)
  case Nil
  then show ?case by simp
next
  case (Cons i idxs)
  show ?case
  proof (cases "udp_packet seq n data P i")
    case (Inl e)
    with Cons.prems show ?thesis
      by (auto simp: udp_packet_def struct_pack_III_def split: if_splits)
  next
    case (Inr p)
    show ?thesis
    proof (cases "ok i")
      case False
      with Inr Cons.prems show ?thesis by auto
    next
      case True
      with Inr Cons.prems obtain ps' where
        ps': "send_packets ok seq n data P idxs = (ps', Some SocketError)" "ps = p # ps'"
        by (auto split: prod.splits)
      from Cons.IH [OF ps'(1)] ps'(2) True show ?thesis
        by (auto simp: nth_Cons split: nat.splits)
    qed
  qed
qed

lemma send_packets_all:
  assumes "u32 seq" "u32 n" "\<forall>i\<in>set idxs. 0 \<le> i \<and> i < n \<and> ok i"
  shows "send_packets ok seq n data P idxs =
           (map (\<lambda>i. be32 seq @ be32 n @ be32 i @ packet_payload data P i) idxs, None)"
  using assms(3) by (induction idxs) (simp_all add: udp_packet_ok assms(1,2))

lemma send_packets_members:
  "send_packets ok seq n data P idxs = (ps, r) \<Longrightarrow> p \<in> set ps \<Longrightarrow>
     \<exists>i\<in>set idxs. udp_packet seq n data P i = Inr p"
proof (induction idxs arbitrary: ps r)
  case Nil
  then show ?case by simp
next
  case (Cons i idxs)
  then show ?case
    by (auto split: sum.splits if_splits prod.splits)
qed

subsection \<open>The fan-out\<close>

lemma sent_to_append: "sent_to c (xs @ ys) = sent_to c xs @ sent_to c ys"
  by (simp add: sent_to_def)

lemma sent_to_same: "sent_to c (map (\<lambda>p. (p, c)) ps) = ps"
  by (induction ps) (simp_all add: sent_to_def)

lemma sent_to_other: "c \<noteq> d \<Longrightarrow> sent_to c (map (\<lambda>p. (p, d)) ps) = []"
  by (induction ps) (simp_all add: sent_to_def)

lemma fst_fan_out_Cons:
  "fst (fan_out ok seq n data P (d # cs) cl) =
     fst (fan_out ok seq n data P cs
            (case snd (send_packets (ok d) seq n data P (py_range n)) of
               None \<Rightarrow> cl | Some e \<Rightarrow> cl - {d}))"
  by (simp split: prod.splits)

lemma snd_fan_out_Cons:
  "snd (fan_out ok seq n data P (d # cs) cl) =
     map (\<lambda>p. (p, d)) (fst (send_packets (ok d) seq n data P (py_range n))) @
     snd (fan_out ok seq n data P cs
            (case snd (send_packets (ok d) seq n data P (py_range n)) of
               None \<Rightarrow> cl | Some e \<Rightarrow> cl - {d}))"
  by (simp split: prod.splits)

lemma fan_out_absent:
  "c \<notin> set cs \<Longrightarrow> sent_to c (snd (fan_out ok seq n data P cs cl)) = []"
proof (induction cs arbitrary: cl)
  case Nil
  show ?case by (simp add: sent_to_def)
next
  case (Cons d cs)
  then have "c \<noteq> d" "c \<notin> set cs" by simp_all
  with Cons.IH show ?case
    by (simp add: snd_fan_out_Cons sent_to_append sent_to_other del: fan_out.simps)
qed

lemma fan_out_sent_to:
  "distinct cs \<Longrightarrow> c \<in> set cs \<Longrightarrow>
     sent_to c (snd (fan_out ok seq n data P cs cl)) =
     fst (send_packets (ok c) seq n data P (py_range n))"
proof (induction cs arbitrary: cl)
  case Nil
  then show ?case by simp
next
  case (Cons d cs)
  show ?case
  proof (cases "c = d")
    case True
    with Cons.prems have "c \<notin> set cs" by simp
    then have "sent_to c (snd (fan_out ok seq n data P cs cl')) = []" for cl'
      by (rule fan_out_absent)
    with True show ?thesis
      by (simp add: snd_fan_out_Cons sent_to_append sent_to_same del: fan_out.simps)
  next
    case False
    with Cons.prems have "distinct cs" "c \<in> set cs" by simp_all
    then have "sent_to c (snd (fan_out ok seq n data P cs cl')) =
        fst (send_packets (ok c) seq n data P (py_range n))" for cl'
      by (rule Cons.IH)
    with False show ?thesis
      by (simp add: snd_fan_out_Cons sent_to_append sent_to_other del: fan_out.simps)
  qed
qed

lemma fan_out_clients:
  "fst (fan_out ok seq n data P cs cl) =
     cl - {c \<in> set cs. snd (send_packets (ok c) seq n data P (py_range n)) \<noteq> None}"
proof (induction cs arbitrary: cl)
  case Nil
  then show ?case by simp
next
  case (Cons d cs)
  show ?case
    unfolding fst_fan_out_Cons Cons.IH
    by (cases "snd (send_packets (ok d) seq n data P (py_range n))") auto
qed

lemma fan_out_members:
  "(p, c) \<in> set (snd (fan_out ok seq n data P cs cl)) \<Longrightarrow>
     c \<in> set cs \<and> (\<exists>i\<in>set (py_range n). udp_packet seq n data P i = Inr p)"
proof (induction cs arbitrary: cl)
  case Nil
  then show ?case by simp
next
  case (Cons d cs)
  obtain ps r where sp: "send_packets (ok d) seq n data P (py_range n) = (ps, r)"
    by (cases "send_packets (ok d) seq n data P (py_range n)")
  from Cons.prems sp have "(p, c) \<in> set (map (\<lambda>p. (p, d)) ps) \<or>
      (p, c) \<in> set (snd (fan_out ok seq n data P cs
        (case r of None \<Rightarrow> cl | Some e \<Rightarrow> cl - {d})))"
    unfolding snd_fan_out_Cons by simp
  then show ?case
  proof
    assume "(p, c) \<in> set (map (\<lambda>p. (p, d)) ps)"
    then have "c = d" "p \<in> set ps" by auto
    with send_packets_members [OF sp] show ?thesis by simp
  next
    assume "(p, c) \<in> set (snd (fan_out ok seq n data P cs
        (case r of None \<Rightarrow> cl | Some e \<Rightarrow> cl - {d})))"
    from Cons.IH [OF this] show ?thesis by simp
  qed
qed

lemma fan_out_empty_range:
  "py_range n = [] \<Longrightarrow> fan_out ok seq n data P cs cl = (cl, [])"
  by (induction cs arbitrary: cl) simp_all

lemma broadcast_iteration_Encoded:
  "broadcast_iteration iter ok st (Encoded data) =
     (case ceil_truediv (int (length data)) (max_packet_size st - 12) of
        Inl e \<Rightarrow> \<lparr>state = st\<lparr>sequence_number := sequence_number st + 1\<rparr>, sent = [],
                  raised = Some e\<rparr>
      | Inr n \<Rightarrow>
          \<lparr>state = st\<lparr>sequence_number := sequence_number st + 1,
                clients := fst (fan_out ok (sequence_number st + 1) n data
                  (max_packet_size st - 12) (iter (clients st)) (clients st))\<rparr>,
            sent = snd (fan_out ok (sequence_number st + 1) n data
                  (max_packet_size st - 12) (iter (clients st)) (clients st)),
            raised = None\<rparr>)"
  by (simp add: broadcast_iteration_def Let_def split: sum.splits prod.splits)

subsection \<open>One iteration\<close>

text \<open>
  C9. For an encoded frame of zero bytes and a maximal packet size above the header
  size, the number of packets is \<open>0\<close>; the iteration raises nothing (no division by
  zero), sends no datagram, and only advances the sequence number. The model is a total
  function, so the iteration ends.
\<close>

theorem empty_frame_sends_nothing:
  assumes "12 < max_packet_size st"
  shows "ceil_truediv (int (length ([] :: bytes))) (max_packet_size st - 12) = Inr 0 \<and>
         broadcast_iteration iter send_ok st (Encoded []) =
           \<lparr>state = st\<lparr>sequence_number := sequence_number st + 1\<rparr>, sent = [], raised = None\<rparr>"
  using assms
  by (simp add: broadcast_iteration_Encoded ceil_truediv_zero fan_out_empty_range py_range_nonpos)

text \<open>
  C8. Every datagram that an iteration sends starts with twelve bytes that hold, in
  network byte order, the sequence number of the frame, the number of packets and the
  index of the packet, at the offsets 0, 4 and 8. The rest is the slice of the frame for
  that index, of at most \<^verbatim>\<open>max_packet_size - 12\<close> bytes, so the datagram has at most
  \<^verbatim>\<open>max_packet_size\<close> bytes.
\<close>

theorem datagram_layout:
  assumes "(d, c) \<in> set (sent (broadcast_iteration iter send_ok st cap))"
  shows "\<exists>frame_data total_packets i.
           cap = Encoded frame_data \<and>
           ceil_truediv (int (length frame_data)) (max_packet_size st - 12) = Inr total_packets \<and>
           0 \<le> i \<and> i < total_packets \<and>
           length d = 12 + length (packet_payload frame_data (max_packet_size st - 12) i) \<and>
           unpack_u32 d = sequence_number st + 1 \<and>
           unpack_u32 (drop 4 d) = total_packets \<and>
           unpack_u32 (drop 8 d) = i \<and>
           drop 12 d = packet_payload frame_data (max_packet_size st - 12) i \<and>
           int (length (drop 12 d)) \<le> max_packet_size st - 12 \<and>
           int (length d) \<le> max_packet_size st"
proof (cases cap)
  case Dropped
  with assms show ?thesis by (simp add: broadcast_iteration_def)
next
  case EncodeFailed
  with assms show ?thesis by (simp add: broadcast_iteration_def)
next
  case (Encoded data)
  let ?P = "max_packet_size st - 12"
  let ?L = "int (length data)"
  let ?s = "sequence_number st + 1"
  show ?thesis
  proof (cases "ceil_truediv ?L ?P")
    case (Inl e)
    with assms Encoded show ?thesis by (simp add: broadcast_iteration_Encoded)
  next
    case (Inr n)
    with assms Encoded have
      "(d, c) \<in> set (snd (fan_out send_ok ?s n data ?P (iter (clients st)) (clients st)))"
      by (simp add: broadcast_iteration_Encoded)
    then have "\<exists>i\<in>set (py_range n). udp_packet ?s n data ?P i = Inr d"
      by (rule fan_out_members [THEN conjunct2])
    then obtain i where i: "i \<in> set (py_range n)" "udp_packet ?s n data ?P i = Inr d"
      by auto
    from i(1) have range: "0 \<le> i" "i < n" by (simp_all add: set_py_range)
    from i(2) have u: "u32 ?s" "u32 n" "u32 i"
      and d: "d = be32 ?s @ be32 n @ be32 i @ packet_payload data ?P i"
      by (simp_all add: udp_packet_Inr)
    from Inr have P0: "?P \<noteq> 0" and n: "n = \<lceil>real_of_int ?L / real_of_int ?P\<rceil>"
      by (auto simp: ceil_truediv_def split: if_splits)
    have Ppos: "0 < ?P"
    proof (rule ccontr)
      assume "\<not> 0 < ?P"
      with P0 have "?P < 0" by simp
      then have "n \<le> 0" unfolding n by (intro ceil_neg_divisor) simp_all
      with range show False by simp
    qed
    have len: "int (length (packet_payload data ?P i)) \<le> ?P"
      using Ppos range(1) by (rule length_packet_payload)
    have h1: "unpack_u32 d = ?s"
      unfolding d using u(1) by (rule unpack_be32)
    have h2: "unpack_u32 (drop 4 d) = n"
      unfolding d using u(2) by (simp add: length_be32 unpack_be32)
    have h3: "unpack_u32 (drop 8 d) = i"
      unfolding d using u(3) unpack_be32 [of i "packet_payload data ?P i"]
      by (simp add: length_be32)
    have h4: "drop 12 d = packet_payload data ?P i"
      unfolding d by (simp add: length_be32)
    have h5: "length d = 12 + length (packet_payload data ?P i)"
      unfolding d by (simp add: length_be32)
    from len h4 have h6: "int (length (drop 12 d)) \<le> ?P" by simp
    from len h5 have h7: "int (length d) \<le> max_packet_size st" by simp
    from Encoded Inr range h1 h2 h3 h4 h5 h6 h7 show ?thesis by blast
  qed
qed


lemma send_packets_SocketError_packed:
  "send_packets ok seq n data P idxs = (ps, Some SocketError) \<Longrightarrow> u32 seq \<and> u32 n"
proof (induction idxs arbitrary: ps)
  case Nil
  then show ?case by simp
next
  case (Cons i idxs)
  show ?case
  proof (cases "udp_packet seq n data P i")
    case (Inl e)
    with Cons.prems show ?thesis
      by (auto simp: udp_packet_def struct_pack_III_def split: if_splits)
  next
    case (Inr p)
    then show ?thesis by (simp add: udp_packet_Inr)
  qed
qed

lemma send_packets_reliable:
  assumes "u32 seq" "u32 n" "\<forall>i. ok i"
  shows "send_packets ok seq n data P (py_range n) =
           (map (\<lambda>i. be32 seq @ be32 n @ be32 i @ packet_payload data P i) (py_range n), None)"
  using assms by (intro send_packets_all) (simp_all add: set_py_range)

lemma map_Inr_packets:
  assumes "u32 seq" "u32 n"
  shows "map Inr (map (\<lambda>i. be32 seq @ be32 n @ be32 i @ packet_payload data P i) (py_range n)) =
         map (udp_packet seq n data P) (py_range n)"
  using assms by (simp add: udp_packet_ok set_py_range)

text \<open>
  C5. In the fan-out of one frame over a snapshot of the registry, let the sending to
  the client \<open>a\<close> end with a socket error, and let every \<^verbatim>\<open>sendto\<close> to another
  client succeed. Then the registry loses \<open>a\<close> and nothing else; \<open>a\<close> was sent the
  packets before the failing one, \<open>0\<close> to \<open>j - 1\<close>, and none after it; and every other
  client of the snapshot was sent all the packets of the frame, in the order of their
  indices.
\<close>

theorem send_failure_isolated:
  assumes snap: "distinct (iter (clients st))" "set (iter (clients st)) = clients st"
    and a: "a \<in> clients st"
    and total: "ceil_truediv (int (length frame_data)) (max_packet_size st - 12) = Inr total_packets"
    and fails: "snd (send_packets (send_ok a) (sequence_number st + 1) total_packets frame_data
                  (max_packet_size st - 12) (py_range total_packets)) = Some SocketError"
    and others: "\<forall>b i. b \<noteq> a \<longrightarrow> send_ok b i"
  shows "clients (state (broadcast_iteration iter send_ok st (Encoded frame_data))) =
           clients st - {a} \<and>
         (\<exists>j. 0 \<le> j \<and> j < total_packets \<and> \<not> send_ok a j \<and>
            map Inr (sent_to a (sent (broadcast_iteration iter send_ok st (Encoded frame_data)))) =
            map (udp_packet (sequence_number st + 1) total_packets frame_data
                   (max_packet_size st - 12)) (py_range j)) \<and>
         (\<forall>b\<in>clients st - {a}.
            map Inr (sent_to b (sent (broadcast_iteration iter send_ok st (Encoded frame_data)))) =
            map (udp_packet (sequence_number st + 1) total_packets frame_data
                   (max_packet_size st - 12)) (py_range total_packets))"
proof -
  let ?s = "sequence_number st + 1"
  let ?P = "max_packet_size st - 12"
  let ?n = total_packets
  let ?res = "broadcast_iteration iter send_ok st (Encoded frame_data)"
  let ?sp = "\<lambda>c. send_packets (send_ok c) ?s ?n frame_data ?P (py_range ?n)"
  obtain ps where ps: "?sp a = (ps, Some SocketError)"
    using fails by (cases "?sp a") simp
  from send_packets_SocketError_packed [OF ps] have u: "u32 ?s" "u32 ?n" by simp_all
  have other: "?sp b = (map (\<lambda>i. be32 ?s @ be32 ?n @ be32 i @ packet_payload frame_data ?P i)
                          (py_range ?n), None)" if "b \<noteq> a" for b
    using u others that by (intro send_packets_reliable) simp_all
  have sent: "sent ?res = snd (fan_out send_ok ?s ?n frame_data ?P (iter (clients st)) (clients st))"
    and cl: "clients (state ?res) =
             fst (fan_out send_ok ?s ?n frame_data ?P (iter (clients st)) (clients st))"
    using total by (simp_all add: broadcast_iteration_Encoded)
  have snd_other: "snd (?sp b) = None" if "b \<noteq> a" for b
    using other [OF that] by simp
  have "{c \<in> set (iter (clients st)). snd (?sp c) \<noteq> None} = {a}"
  proof (intro equalityI subsetI)
    fix c assume "c \<in> {c \<in> set (iter (clients st)). snd (?sp c) \<noteq> None}"
    then have "snd (?sp c) \<noteq> None" by simp
    with snd_other [of c] show "c \<in> {a}" by blast
  next
    fix c assume "c \<in> {a}"
    with a snap(2) ps show "c \<in> {c \<in> set (iter (clients st)). snd (?sp c) \<noteq> None}"
      by simp
  qed
  then have c1: "clients (state ?res) = clients st - {a}"
    unfolding cl fan_out_clients by simp
  have to: "sent_to c (sent ?res) = fst (?sp c)" if "c \<in> clients st" for c
    unfolding sent using snap that by (intro fan_out_sent_to) simp_all
  from send_packets_SocketError [OF ps] have
    lt: "length ps < length (py_range ?n)" and bad: "\<not> send_ok a (py_range ?n ! length ps)"
    by simp_all
  let ?j = "int (length ps)"
  from lt have j: "0 \<le> ?j" "?j < ?n" by (simp_all add: length_py_range)
  from lt have nth: "py_range ?n ! length ps = ?j" by (simp add: length_py_range nth_py_range)
  from send_packets_prefix [OF ps] have
    "map Inr ps = map (udp_packet ?s ?n frame_data ?P) (take (length ps) (py_range ?n))"
    by simp
  also have "take (length ps) (py_range ?n) = py_range ?j"
    using take_py_range [of ?j ?n] j by simp
  finally have "map Inr (sent_to a (sent ?res)) =
      map (udp_packet ?s ?n frame_data ?P) (py_range ?j)"
    using to [OF a] ps by simp
  with j bad nth have c2: "\<exists>j. 0 \<le> j \<and> j < ?n \<and> \<not> send_ok a j \<and>
      map Inr (sent_to a (sent ?res)) = map (udp_packet ?s ?n frame_data ?P) (py_range j)"
    by (intro exI [of _ ?j]) simp
  have c3: "\<forall>b\<in>clients st - {a}. map Inr (sent_to b (sent ?res)) =
      map (udp_packet ?s ?n frame_data ?P) (py_range ?n)"
  proof
    fix b assume b: "b \<in> clients st - {a}"
    then have "sent_to b (sent ?res) = fst (?sp b)" by (intro to) simp
    with b other [of b] show "map Inr (sent_to b (sent ?res)) =
        map (udp_packet ?s ?n frame_data ?P) (py_range ?n)"
      by (simp add: map_Inr_packets [OF u] del: map_map)
  qed
  from c1 c2 c3 show ?thesis by blast
qed

text \<open>
  C7. An iteration in which the camera gives no frame, or in which the encoder fails,
  leaves the server as it was, sequence number included, and sends no datagram; and an
  iteration that changes the sequence number is one whose frame was encoded.
\<close>

theorem no_frame_no_sequence_number:
  "broadcast_iteration iter send_ok st Dropped = \<lparr>state = st, sent = [], raised = None\<rparr> \<and>
   broadcast_iteration iter send_ok st EncodeFailed = \<lparr>state = st, sent = [], raised = None\<rparr> \<and>
   (sequence_number (state (broadcast_iteration iter send_ok st cap)) \<noteq> sequence_number st \<longrightarrow>
      (\<exists>frame_data. cap = Encoded frame_data))"
  by (cases cap) (simp_all add: broadcast_iteration_def)


lemma sent_packet_origin:
  assumes "(d, c) \<in> set (sent (broadcast_iteration iter send_ok st (Encoded data)))"
  shows "\<exists>n i. ceil_truediv (int (length data)) (max_packet_size st - 12) = Inr n \<and>
           i \<in> set (py_range n) \<and>
           udp_packet (sequence_number st + 1) n data (max_packet_size st - 12) i = Inr d"
proof (cases "ceil_truediv (int (length data)) (max_packet_size st - 12)")
  case (Inl e)
  with assms show ?thesis by (simp add: broadcast_iteration_Encoded)
next
  case (Inr n)
  with assms have "(d, c) \<in> set (snd (fan_out send_ok (sequence_number st + 1) n data
      (max_packet_size st - 12) (iter (clients st)) (clients st)))"
    by (simp add: broadcast_iteration_Encoded)
  then have "\<exists>i\<in>set (py_range n).
      udp_packet (sequence_number st + 1) n data (max_packet_size st - 12) i = Inr d"
    by (rule fan_out_members [THEN conjunct2])
  with Inr show ?thesis by auto
qed

lemma broadcast_iteration_no_frame:
  "broadcast_iteration iter send_ok st Dropped = \<lparr>state = st, sent = [], raised = None\<rparr>"
  "broadcast_iteration iter send_ok st EncodeFailed = \<lparr>state = st, sent = [], raised = None\<rparr>"
  by (simp_all add: broadcast_iteration_def)

lemma iteration_sequence_number:
  "sequence_number (state (broadcast_iteration iter send_ok st cap)) =
     sequence_number st + (if encoded cap then 1 else 0)"
  by (cases cap)
     (simp_all add: broadcast_iteration_Encoded broadcast_iteration_no_frame split: sum.splits)

lemma iteration_max_packet_size:
  "max_packet_size (state (broadcast_iteration iter send_ok st cap)) = max_packet_size st"
  by (cases cap)
     (simp_all add: broadcast_iteration_Encoded broadcast_iteration_no_frame split: sum.splits)

lemma iteration_not_raised:
  "max_packet_size st \<noteq> 12 \<Longrightarrow> raised (broadcast_iteration iter send_ok st cap) = None"
  by (cases cap)
     (simp_all add: broadcast_iteration_Encoded broadcast_iteration_no_frame ceil_truediv_def
        split: sum.splits)

lemma final_prepend: "final (prepend out r) = final r"
  by (simp add: prepend_def)

lemma send_frames_sequence_number:
  "max_packet_size st \<noteq> 12 \<Longrightarrow> list_all fst ticks \<Longrightarrow>
     sequence_number (final (send_frames iter st ticks)) =
     sequence_number st + int (length (filter (\<lambda>t. encoded (fst (snd t))) ticks))"
proof (induction ticks arbitrary: st)
  case Nil
  show ?case by simp
next
  case (Cons t ticks)
  obtain running cap ok where t: "t = (running, cap, ok)" by (cases t)
  let ?res = "broadcast_iteration iter ok st cap"
  from Cons.prems t have run: "running" and rest: "list_all fst ticks" by simp_all
  from Cons.prems(1) have nr: "raised ?res = None" by (rule iteration_not_raised)
  from Cons.prems(1) have "max_packet_size (state ?res) \<noteq> 12"
    by (simp add: iteration_max_packet_size)
  from Cons.IH [OF this rest] have
    "sequence_number (final (send_frames iter (state ?res) ticks)) =
     sequence_number (state ?res) + int (length (filter (\<lambda>t. encoded (fst (snd t))) ticks))" .
  with t run nr show ?case
    by (simp add: final_prepend iteration_sequence_number Let_def)
qed

text \<open>
  C6, as the code has it. The sequence number is a Python integer that goes up by one
  for each encoded frame and is never reduced: after a run of the loop it is the number
  it started from plus the number of encoded frames. A datagram that is sent carries the
  sequence number of its frame, which is then below \<open>2\<^sup>3\<^sup>2\<close>.
\<close>

theorem sequence_number_counts_frames:
  "sequence_number (state (broadcast_iteration iter send_ok st (Encoded frame_data))) =
     sequence_number st + 1 \<and>
   ((d, c) \<in> set (sent (broadcast_iteration iter send_ok st (Encoded frame_data))) \<longrightarrow>
      unpack_u32 d = sequence_number st + 1 \<and> sequence_number st + 1 < 4294967296) \<and>
   (max_packet_size st \<noteq> 12 \<and> list_all fst ticks \<longrightarrow>
      sequence_number (final (send_frames iter st ticks)) =
      sequence_number st + int (length (filter (\<lambda>t. encoded (fst (snd t))) ticks)))"
proof (intro conjI impI)
  show "sequence_number (state (broadcast_iteration iter send_ok st (Encoded frame_data))) =
     sequence_number st + 1"
    by (simp add: iteration_sequence_number)
next
  assume "(d, c) \<in> set (sent (broadcast_iteration iter send_ok st (Encoded frame_data)))"
  from sent_packet_origin [OF this] obtain n i where
    "udp_packet (sequence_number st + 1) n frame_data (max_packet_size st - 12) i = Inr d"
    by blast
  then have u: "u32 (sequence_number st + 1)"
    and d: "d = be32 (sequence_number st + 1) @ be32 n @ be32 i @
                packet_payload frame_data (max_packet_size st - 12) i"
    by (simp_all add: udp_packet_Inr)
  show "unpack_u32 d = sequence_number st + 1" unfolding d using u by (rule unpack_be32)
  from u show "sequence_number st + 1 < 4294967296" by (simp add: u32_def)
next
  assume "max_packet_size st \<noteq> 12 \<and> list_all fst ticks"
  then show "sequence_number (final (send_frames iter st ticks)) =
      sequence_number st + int (length (filter (\<lambda>t. encoded (fst (snd t))) ticks))"
    by (simp add: send_frames_sequence_number)
qed

text \<open>
  C6 as stated has the sequence number wrap to \<open>0\<close> after \<open>2\<^sup>3\<^sup>2 - 1\<close>, with the
  packets still sent. In the iteration after sequence number \<open>4294967295\<close>, the number
  becomes \<open>4294967296\<close>, which \<^verbatim>\<open>struct.pack\<close> refuses, and no datagram is sent.
\<close>

theorem sequence_number_wrap_counterexample:
  "sequence_number (state (broadcast_iteration sorted_list_of_set reliable
       (init_server\<lparr>clients := {7::nat}, sequence_number := 4294967295\<rparr>) (Encoded ''x''))) =
     4294967296 \<and>
   sent (broadcast_iteration sorted_list_of_set reliable
       (init_server\<lparr>clients := {7::nat}, sequence_number := 4294967295\<rparr>) (Encoded ''x'')) = []"
  by (simp add: broadcast_iteration_Encoded init_server_def ceil_truediv_div py_range_def
        udp_packet_def struct_pack_III_def u32_def)

lemma drop_header: "drop 12 (be32 a @ be32 b @ be32 c @ p) = p"
  by (simp add: length_be32)

text \<open>
  C2, where the header can hold the numbers. Let the payload have \<open>L\<close> bytes and let the
  maximal packet size \<open>M\<close> be above the header size, with \<open>L\<close> and \<open>M - 12\<close> below
  \<open>2\<^sup>5\<^sup>3\<close> (where the quotient of the code is exact), and let the sequence number and
  the number \<open>\<lceil>L / (M - 12)\<rceil>\<close> fit an unsigned 32-bit field. Then that number is the
  number of packets computed and the number of packets sent to a client that can be
  reached; the packet at position \<open>k\<close> carries the index \<open>k\<close>; and the payloads of the
  packets, concatenated in this order, are the payload of the frame.
\<close>

theorem fragmentation_round_trip:
  assumes M: "12 < M"
    and exact: "int (length frame_data) < 2 ^ 53" "M - 12 < 2 ^ 53"
    and fits: "u32 seq" "\<lceil>real (length frame_data) / real_of_int (M - 12)\<rceil> < 4294967296"
  shows "\<exists>total_packets ps.
      ceil_truediv (int (length frame_data)) (M - 12) = Inr total_packets \<and>
      total_packets = \<lceil>real (length frame_data) / real_of_int (M - 12)\<rceil> \<and>
      send_packets (reliable c) seq total_packets frame_data (M - 12) (py_range total_packets) =
        (ps, None) \<and>
      int (length ps) = total_packets \<and>
      (\<forall>k<length ps. unpack_u32 (drop 8 (ps ! k)) = int k) \<and>
      concat (map (drop 12) ps) = frame_data"
proof -
  let ?P = "M - 12"
  let ?n = "\<lceil>real (length frame_data) / real_of_int ?P\<rceil>"
  let ?pk = "\<lambda>i. be32 seq @ be32 ?n @ be32 i @ packet_payload frame_data ?P i"
  let ?ps = "map ?pk (py_range ?n)"
  from M have P: "0 < ?P" by simp
  have n0: "0 \<le> ?n" using ceil_nonneg [of "int (length frame_data)" ?P] P by simp
  with fits(2) have un: "u32 ?n" by (simp add: u32_def)
  have c: "ceil_truediv (int (length frame_data)) ?P = Inr ?n"
    using P by (simp add: ceil_truediv_def)
  have sp: "send_packets (reliable c) seq ?n frame_data ?P (py_range ?n) = (?ps, None)"
    using fits(1) un by (intro send_packets_reliable) (simp_all add: reliable_def)
  have len: "int (length ?ps) = ?n" using n0 by (simp add: length_py_range)
  have idx: "\<forall>k<length ?ps. unpack_u32 (drop 8 (?ps ! k)) = int k"
  proof (intro allI impI)
    fix k assume k: "k < length ?ps"
    then have kn: "k < nat ?n" by (simp add: length_py_range)
    then have "?ps ! k = ?pk (int k)" by (simp add: length_py_range nth_py_range)
    moreover have "u32 (int k)"
    proof -
      from kn have "int k < ?n" by arith
      from this fits(2) have "int k < 4294967296" by (rule less_trans)
      then show ?thesis by (simp add: u32_def)
    qed
    ultimately show "unpack_u32 (drop 8 (?ps ! k)) = int k"
      by (simp add: length_be32 unpack_be32)
  qed
  have "concat (map (drop 12) ?ps) =
        concat (map (packet_payload frame_data ?P) (py_range ?n))"
    by (simp only: map_map comp_def drop_header)
  also have "\<dots> = frame_data"
    using P ceil_covers [OF P, of "int (length frame_data)"] by (intro payloads_concat) simp_all
  finally have cat: "concat (map (drop 12) ?ps) = frame_data" .
  from c sp len idx cat show ?thesis by blast
qed

text \<open>
  C2 as stated holds for every payload and every packet size above the header size. For
  a payload of \<open>2\<^sup>3\<^sup>2\<close> bytes and a packet size of 13, the number of packets is
  \<open>2\<^sup>3\<^sup>2\<close>, which \<^verbatim>\<open>struct.pack\<close> refuses in the header of the first packet: no
  packet is sent.
\<close>

theorem oversized_frame_counterexample:
  "ceil_truediv (int (length (replicate 4294967296 (CHR ''x'')))) (13 - 12) = Inr 4294967296 \<and>
   sent (broadcast_iteration sorted_list_of_set reliable
       (init_server\<lparr>clients := {7::nat}, max_packet_size := 13\<rparr>)
       (Encoded (replicate 4294967296 (CHR ''x'')))) = []"
proof -
  have r: "py_range 4294967296 = 0 # [1..4294967295]"
    unfolding py_range_def by (subst upto_rec1) simp_all
  show ?thesis
    by (simp add: broadcast_iteration_Encoded init_server_def ceil_truediv_div r
        udp_packet_def struct_pack_III_def u32_def)
qed

section \<open>The colour command\<close>

subsection \<open>Splitting\<close>

lemma split_no_sep: "sep \<notin> set s \<Longrightarrow> split sep s = [s]"
  by (induction s) simp_all

lemma split_at_sep: "sep \<notin> set a \<Longrightarrow> split sep (a @ sep # b) = a # split sep b"
  by (induction a) simp_all

subsection \<open>The characters of an integer literal\<close>

lemma int_char_not_sep: "\<not> int_char dec 44" "\<not> int_char dec 58"
  by (simp_all add: int_char_def int_space_def digit_val_def)

lemma int_digits_chars:
  "int_digits dec acc s = Some n \<Longrightarrow> list_all (int_char dec) s"
proof (induction dec acc s rule: int_digits.induct)
  case (1 dec acc)
  show ?case by simp
next
  case (2 dec acc c cs)
  show ?case
  proof (cases "digit_val dec c")
    case (Some d)
    with 2 show ?thesis by (simp add: int_char_def)
  next
    case None
    note nd = this
    show ?thesis
    proof (cases "c = 95")
      case True
      with nd 2 show ?thesis
        by (auto simp: int_char_def split: list.splits option.splits)
    next
      case False
      with nd "2.prems" have "list_all int_space (c # cs)"
        by (simp split: if_splits)
      then show ?thesis by (auto simp: list_all_iff int_char_def)
    qed
  qed
qed

lemma int_unsigned_chars: "int_unsigned dec s = Some n \<Longrightarrow> list_all (int_char dec) s"
  by (cases s)
     (auto simp: int_unsigned_def int_char_def dest: int_digits_chars split: option.splits)

lemma py_int_chars:
  assumes "py_int dec s = Some n"
  shows "list_all (int_char dec) s"
proof -
  have pre: "list_all (int_char dec) (takeWhile int_space s)"
    by (auto simp: list_all_iff int_char_def dest: set_takeWhileD)
  have "list_all (int_char dec) (dropWhile int_space s)"
  proof (cases "dropWhile int_space s")
    case Nil
    show ?thesis unfolding Nil by simp
  next
    case (Cons c cs)
    with assms have
      "(c = 45 \<or> c = 43) \<and> (\<exists>m. int_unsigned dec cs = Some m) \<or>
       (\<exists>m. int_unsigned dec (c # cs) = Some m)"
      by (auto simp: py_int_def split: if_splits)
    then show ?thesis
      using Cons by (auto simp: int_char_def dest: int_unsigned_chars)
  qed
  with pre have "list_all (int_char dec) (takeWhile int_space s @ dropWhile int_space s)"
    by (simp only: list_all_append)
  then show ?thesis by (simp only: takeWhile_dropWhile_id)
qed

lemma py_int_no_sep:
  assumes "py_int dec s = Some n"
  shows "44 \<notin> set s" "58 \<notin> set s"
  using py_int_chars [OF assms] int_char_not_sep [of dec]
  by (auto simp: list_all_iff)

subsection \<open>Parsing and applying the command\<close>

lemma COLOR_text: "text_of ''COLOR:'' = [67, 79, 76, 79, 82] @ [58]"
  by (simp add: text_of_def)

lemma parse_color_fields:
  assumes "py_int dec sr = Some r" "py_int dec sg = Some g" "py_int dec sb = Some b"
  shows "parse_color dec (text_of ''COLOR:'' @ sr @ 44 # sg @ 44 # sb) = Inr (r, g, b)"
proof -
  let ?body = "sr @ 44 # sg @ 44 # sb"
  from assms have no58: "58 \<notin> set ?body" by (simp add: py_int_no_sep)
  have "split 58 (text_of ''COLOR:'' @ ?body) = [67, 79, 76, 79, 82] # split 58 ?body"
    using split_at_sep [of 58 "[67, 79, 76, 79, 82]" ?body] by (simp add: COLOR_text)
  also have "split 58 ?body = [?body]" using no58 by (rule split_no_sep)
  finally have f: "item1 (split 58 (text_of ''COLOR:'' @ ?body)) = Inr ?body"
    by (simp add: item1_def)
  have "split 44 ?body = sr # split 44 (sg @ 44 # sb)"
    using assms(1) by (intro split_at_sep py_int_no_sep)
  also have "split 44 (sg @ 44 # sb) = sg # split 44 sb"
    using assms(2) by (intro split_at_sep py_int_no_sep)
  also have "split 44 sb = [sb]" using assms(3) by (intro split_no_sep py_int_no_sep)
  finally have "map (py_int dec) (split 44 ?body) = [Some r, Some g, Some b]"
    using assms by simp
  with f show ?thesis by (simp add: parse_color_def)
qed

lemma startswith_append: "startswith (p @ s) p"
  by (simp add: startswith_def)

lemma control_message_color:
  assumes "decode_utf8 data = Some message"
    and "strip message = text_of ''COLOR:'' @ sr @ 44 # sg @ 44 # sb"
    and "py_int dec sr = Some r" "py_int dec sg = Some g" "py_int dec sb = Some b"
  shows "control_message dec float_of st data a send_ok =
           ok_reply (st\<lparr>blush_color_rgb := (r, g, b)\<rparr>) ''COLOR_OK'' ''COLOR_ERROR'' a send_ok"
  using assms(1,2) parse_color_fields [OF assms(3-5)]
  by (simp add: control_message_def control_command_def startswith_append)

lemma split_not_Nil: "split sep s \<noteq> []"
  by (induction s) (auto split: list.splits)

lemma item1_COLOR: "item1 (split 58 (text_of ''COLOR:'' @ body)) = Inr (hd (split 58 body))"
proof -
  have "split 58 (text_of ''COLOR:'' @ body) = [67, 79, 76, 79, 82] # split 58 body"
    using split_at_sep [of 58 "[67, 79, 76, 79, 82]" body] by (simp add: COLOR_text)
  then show ?thesis
    using split_not_Nil [of 58 body] by (cases "split 58 body") (simp_all add: item1_def)
qed

lemma parse_color_COLOR:
  "parse_color dec (text_of ''COLOR:'' @ body) =
     (case map (py_int dec) (split 44 (hd (split 58 body))) of
        [Some r, Some g, Some b] \<Rightarrow> Inr (r, g, b)
      | _ \<Rightarrow> Inl ValueError)"
  by (simp add: parse_color_def item1_COLOR)

lemma parse_color_invalid:
  assumes "\<forall>r g b. map (py_int dec) (split 44 (hd (split 58 body))) \<noteq> [Some r, Some g, Some b]"
  shows "parse_color dec (text_of ''COLOR:'' @ body) = Inl ValueError"
  unfolding parse_color_COLOR using assms
  by (auto split: list.splits option.splits)

lemma control_message_color_fields:
  assumes "decode_utf8 data = Some message"
    and "strip message = text_of ''COLOR:'' @ body"
    and "map (py_int dec) (split 44 (hd (split 58 body))) = [Some r, Some g, Some b]"
  shows "control_message dec float_of st data a send_ok =
           ok_reply (st\<lparr>blush_color_rgb := (r, g, b)\<rparr>) ''COLOR_OK'' ''COLOR_ERROR'' a send_ok"
  using assms
  by (simp add: control_message_def control_command_def startswith_append parse_color_COLOR)

lemma control_message_color_invalid:
  assumes "decode_utf8 data = Some message"
    and "strip message = text_of ''COLOR:'' @ body"
    and "\<forall>r g b. map (py_int dec) (split 44 (hd (split 58 body))) \<noteq> [Some r, Some g, Some b]"
  shows "control_message dec float_of st data a send_ok =
           error_reply st ''COLOR_ERROR'' a send_ok"
  using assms(1,2) parse_color_invalid [OF assms(3)]
  by (simp add: control_message_def control_command_def startswith_append)

text \<open>
  C1, as the code has it. The control listener does not check the range of a colour
  channel. Take a datagram whose stripped text is \<^verbatim>\<open>COLOR:\<close> followed by \<open>body\<close>.
  The fields of the command are the parts, between commas, of \<open>body\<close> up to its first
  colon (\<^verbatim>\<open>command.split(":")[1].split(",")\<close>).

    \<^item> When \<open>body\<close> is three fields, separated by commas, that \<^verbatim>\<open>int\<close> accepts, with
      values \<open>r\<close>, \<open>g\<close> and \<open>b\<close> of any size, the colour of the server becomes
      \<open>(r, g, b)\<close>, and the reply is \<^verbatim>\<open>COLOR_OK\<close> when that reply can be sent.

    \<^item> More generally, when there are exactly three fields and \<^verbatim>\<open>int\<close> accepts each of
      them, the colour becomes their values, nothing else of the server changes, and
      the reply is \<^verbatim>\<open>COLOR_OK\<close>.

    \<^item> In every other case (fewer or more than three fields, or a field that \<^verbatim>\<open>int\<close>
      rejects) the server is left as it is, and the reply is \<^verbatim>\<open>COLOR_ERROR\<close> when that
      reply can be sent.
\<close>

theorem color_accepted_unchecked:
  assumes "decode_utf8 data = Some message"
    and "strip message = text_of ''COLOR:'' @ body"
  shows
    "(body = sr @ 44 # sg @ 44 # sb \<and>
      py_int dec sr = Some r \<and> py_int dec sg = Some g \<and> py_int dec sb = Some b \<longrightarrow>
        blush_color_rgb (state (control_message dec float_of st data a send_ok)) = (r, g, b) \<and>
        (send_ok ''COLOR_OK'' \<longrightarrow>
           sent (control_message dec float_of st data a send_ok) = [(''COLOR_OK'', a)])) \<and>
     (map (py_int dec) (split 44 (hd (split 58 body))) = [Some r, Some g, Some b] \<longrightarrow>
        state (control_message dec float_of st data a send_ok) = st\<lparr>blush_color_rgb := (r, g, b)\<rparr> \<and>
        (send_ok ''COLOR_OK'' \<longrightarrow>
           sent (control_message dec float_of st data a send_ok) = [(''COLOR_OK'', a)])) \<and>
     ((\<forall>r g b. map (py_int dec) (split 44 (hd (split 58 body))) \<noteq> [Some r, Some g, Some b]) \<longrightarrow>
        state (control_message dec float_of st data a send_ok) = st \<and>
        (send_ok ''COLOR_ERROR'' \<longrightarrow>
           sent (control_message dec float_of st data a send_ok) = [(''COLOR_ERROR'', a)]))"
proof (intro conjI impI)
  assume h: "body = sr @ 44 # sg @ 44 # sb \<and>
      py_int dec sr = Some r \<and> py_int dec sg = Some g \<and> py_int dec sb = Some b"
  with assms(2) have s: "strip message = text_of ''COLOR:'' @ sr @ 44 # sg @ 44 # sb" by simp
  from h have i: "py_int dec sr = Some r" "py_int dec sg = Some g" "py_int dec sb = Some b"
    by simp_all
  note eq = control_message_color [OF assms(1) s i]
  show "blush_color_rgb (state (control_message dec float_of st data a send_ok)) = (r, g, b)"
    unfolding eq by (simp add: ok_reply_def error_reply_def)
  show "sent (control_message dec float_of st data a send_ok) = [(''COLOR_OK'', a)]"
    if "send_ok ''COLOR_OK''"
    unfolding eq using that by (simp add: ok_reply_def)
next
  assume f: "map (py_int dec) (split 44 (hd (split 58 body))) = [Some r, Some g, Some b]"
  note eq = control_message_color_fields [OF assms f]
  show "state (control_message dec float_of st data a send_ok) = st\<lparr>blush_color_rgb := (r, g, b)\<rparr>"
    unfolding eq by (simp add: ok_reply_def error_reply_def)
  show "sent (control_message dec float_of st data a send_ok) = [(''COLOR_OK'', a)]"
    if "send_ok ''COLOR_OK''"
    unfolding eq using that by (simp add: ok_reply_def)
next
  assume f: "\<forall>r g b. map (py_int dec) (split 44 (hd (split 58 body))) \<noteq> [Some r, Some g, Some b]"
  note eq = control_message_color_invalid [OF assms f]
  show "state (control_message dec float_of st data a send_ok) = st"
    unfolding eq by (simp add: error_reply_def)
  show "sent (control_message dec float_of st data a send_ok) = [(''COLOR_ERROR'', a)]"
    if "send_ok ''COLOR_ERROR''"
    unfolding eq using that by (simp add: error_reply_def)
qed

lemma decode_COLOR_300:
  "decode_utf8 ''COLOR:300,10,10'' = Some (text_of ''COLOR:300,10,10'')"
  by (simp add: decode_utf8_def text_of_def)

lemma strip_COLOR_300:
  "strip (text_of ''COLOR:300,10,10'') =
     text_of ''COLOR:'' @ [51, 48, 48] @ 44 # [49, 48] @ 44 # [49, 48]"
  by (simp add: strip_def text_of_def isspace_def)

lemma py_int_300: "py_int dec [51, 48, 48] = Some 300"
  by (simp add: py_int_def int_space_def isspace_def int_unsigned_def digit_val_def)

lemma py_int_10: "py_int dec [49, 48] = Some 10"
  by (simp add: py_int_def int_space_def isspace_def int_unsigned_def digit_val_def)

lemma control_message_COLOR_300:
  "control_message dec float_of st ''COLOR:300,10,10'' a send_ok =
     ok_reply (st\<lparr>blush_color_rgb := (300, 10, 10)\<rparr>) ''COLOR_OK'' ''COLOR_ERROR'' a send_ok"
  by (rule control_message_color [OF decode_COLOR_300 strip_COLOR_300 py_int_300 py_int_10 py_int_10])

text \<open>
  C1 as stated expects the reply \<^verbatim>\<open>COLOR_ERROR\<close> and an unchanged colour for
  \<^verbatim>\<open>COLOR:300,10,10\<close>. The reply is \<^verbatim>\<open>COLOR_OK\<close>, and the colour becomes
  \<open>(300, 10, 10)\<close>.
\<close>

theorem color_out_of_range_counterexample:
  "sent (control_message ascii_digits no_float init_server ''COLOR:300,10,10'' (7::nat) replies_ok) =
     [(''COLOR_OK'', 7)] \<and>
   blush_color_rgb (state (control_message ascii_digits no_float init_server
     ''COLOR:300,10,10'' (7::nat) replies_ok)) = (300, 10, 10)"
  by (simp add: control_message_COLOR_300 ok_reply_def replies_ok_def)

lemma decode_COLOR_bad:
  "decode_utf8 ''COLOR:300,10,x'' = Some (text_of ''COLOR:300,10,x'')"
  by (simp add: decode_utf8_def text_of_def)

lemma strip_COLOR_bad:
  "strip (text_of ''COLOR:300,10,x'') = text_of ''COLOR:'' @ [51, 48, 48, 44, 49, 48, 44, 120]"
  by (simp add: strip_def text_of_def isspace_def)

lemma fields_COLOR_bad:
  "map (py_int dec) (split 44 (hd (split 58 [51, 48, 48, 44, 49, 48, 44, 120]))) =
     [Some 300, Some 10, None]"
  by (simp add: py_int_def int_space_def isspace_def int_unsigned_def digit_val_def)

lemma decode_COLOR_tail:
  "decode_utf8 ''COLOR:1,2,3:4'' = Some (text_of ''COLOR:1,2,3:4'')"
  by (simp add: decode_utf8_def text_of_def)

lemma strip_COLOR_tail:
  "strip (text_of ''COLOR:1,2,3:4'') = text_of ''COLOR:'' @ [49, 44, 50, 44, 51, 58, 52]"
  by (simp add: strip_def text_of_def isspace_def)

lemma fields_COLOR_tail:
  "map (py_int dec) (split 44 (hd (split 58 [49, 44, 50, 44, 51, 58, 52]))) =
     [Some 1, Some 2, Some 3]"
  by (simp add: py_int_def int_space_def isspace_def int_unsigned_def digit_val_def)

text \<open>
  The three cases at concrete commands: \<^verbatim>\<open>COLOR:300,10,10\<close> is stored and confirmed,
  so is \<^verbatim>\<open>COLOR:1,2,3:4\<close> (what follows the second colon is not read), and
  \<^verbatim>\<open>COLOR:300,10,x\<close> is refused with \<^verbatim>\<open>COLOR_ERROR\<close>, the colour staying as it was.
\<close>

theorem color_accepted_unchecked_witness:
  "blush_color_rgb (state (control_message ascii_digits no_float (init_server :: nat server)
     ''COLOR:300,10,10'' 7 replies_ok)) = (300, 10, 10) \<and>
   sent (control_message ascii_digits no_float (init_server :: nat server)
     ''COLOR:300,10,10'' 7 replies_ok) = [(''COLOR_OK'', 7)] \<and>
   state (control_message ascii_digits no_float (init_server :: nat server)
     ''COLOR:1,2,3:4'' 7 replies_ok) = init_server\<lparr>blush_color_rgb := (1, 2, 3)\<rparr> \<and>
   sent (control_message ascii_digits no_float (init_server :: nat server)
     ''COLOR:1,2,3:4'' 7 replies_ok) = [(''COLOR_OK'', 7)] \<and>
   state (control_message ascii_digits no_float (init_server :: nat server)
     ''COLOR:300,10,x'' 7 replies_ok) = init_server \<and>
   sent (control_message ascii_digits no_float (init_server :: nat server)
     ''COLOR:300,10,x'' 7 replies_ok) = [(''COLOR_ERROR'', 7)]"
proof -
  let ?st = "init_server :: nat server"
  have ok: "replies_ok ''COLOR_OK''" "replies_ok ''COLOR_ERROR''" by (simp_all add: replies_ok_def)
  have s: "strip (text_of ''COLOR:300,10,10'') =
           text_of ''COLOR:'' @ ([51, 48, 48] @ 44 # [49, 48] @ 44 # [49, 48])"
    using strip_COLOR_300 by simp
  from color_accepted_unchecked [OF decode_COLOR_300 s, where sr = "[51, 48, 48]"
      and sg = "[49, 48]" and sb = "[49, 48]" and dec = ascii_digits and r = 300 and g = 10
      and b = 10 and float_of = no_float and st = ?st and a = 7 and send_ok = replies_ok]
    py_int_300 py_int_10 ok
  have c1: "blush_color_rgb (state (control_message ascii_digits no_float ?st
              ''COLOR:300,10,10'' 7 replies_ok)) = (300, 10, 10) \<and>
            sent (control_message ascii_digits no_float ?st ''COLOR:300,10,10'' 7 replies_ok) =
              [(''COLOR_OK'', 7)]"
    by blast
  from color_accepted_unchecked [OF decode_COLOR_tail strip_COLOR_tail, where dec = ascii_digits
      and r = 1 and g = 2 and b = 3 and float_of = no_float and st = ?st and a = 7
      and send_ok = replies_ok]
    fields_COLOR_tail ok
  have c2: "state (control_message ascii_digits no_float ?st ''COLOR:1,2,3:4'' 7 replies_ok) =
              ?st\<lparr>blush_color_rgb := (1, 2, 3)\<rparr> \<and>
            sent (control_message ascii_digits no_float ?st ''COLOR:1,2,3:4'' 7 replies_ok) =
              [(''COLOR_OK'', 7)]"
    by blast
  have "\<forall>r g b. map (py_int ascii_digits) (split 44 (hd (split 58 [51, 48, 48, 44, 49, 48, 44, 120])))
          \<noteq> [Some r, Some g, Some b]"
    unfolding fields_COLOR_bad by simp
  with color_accepted_unchecked [OF decode_COLOR_bad strip_COLOR_bad, where dec = ascii_digits
      and float_of = no_float and st = ?st and a = 7 and send_ok = replies_ok] ok
  have c3: "state (control_message ascii_digits no_float ?st ''COLOR:300,10,x'' 7 replies_ok) = ?st \<and>
            sent (control_message ascii_digits no_float ?st ''COLOR:300,10,x'' 7 replies_ok) =
              [(''COLOR_ERROR'', 7)]"
    by blast
  from c1 c2 c3 show ?thesis by blast
qed

section \<open>The theorems at concrete inputs\<close>

lemma first_packet_sent:
  "(be32 1 @ be32 1 @ be32 0 @ ''x'', 7) \<in>
     set (sent (broadcast_iteration sorted_list_of_set reliable
            (init_server\<lparr>clients := {7::nat}\<rparr>) (Encoded ''x'')))"
  by (simp add: broadcast_iteration_Encoded init_server_def ceil_truediv_div py_range_def
        udp_packet_def struct_pack_III_def u32_def reliable_def packet_payload_def py_slice_def
        slice_index_def Let_def)

theorem fragmentation_round_trip_witness:
  "\<exists>ps. send_packets (reliable (7::nat)) 1 4 (replicate 100000 (CHR ''x'')) 32756 (py_range 4) =
          (ps, None) \<and>
        int (length ps) = 4 \<and>
        concat (map (drop 12) ps) = replicate 100000 (CHR ''x'')"
  using fragmentation_round_trip [where M = 32768 and frame_data = "replicate 100000 (CHR ''x'')"
      and seq = 1 and c = "7::nat"]
  by (auto simp: u32_def)

theorem send_failure_isolated_witness:
  "clients (state (broadcast_iteration sorted_list_of_set (\<lambda>c i. c \<noteq> 1 \<or> i < 1)
       (init_server\<lparr>clients := {1, 2::nat}, max_packet_size := 14\<rparr>) (Encoded ''abcde''))) = {2} \<and>
   map Inr (sent_to 2 (sent (broadcast_iteration sorted_list_of_set (\<lambda>c i. c \<noteq> 1 \<or> i < 1)
       (init_server\<lparr>clients := {1, 2::nat}, max_packet_size := 14\<rparr>) (Encoded ''abcde'')))) =
   map (udp_packet 1 3 ''abcde'' 2) (py_range 3)"
proof -
  let ?st = "init_server\<lparr>clients := {1, 2::nat}, max_packet_size := 14\<rparr>"
  let ?ok = "\<lambda>(c::nat) (i::int). c \<noteq> 1 \<or> i < 1"
  have h1: "distinct (sorted_list_of_set (clients ?st))" by simp
  have h2: "set (sorted_list_of_set (clients ?st)) = clients ?st" by simp
  have h3: "1 \<in> clients ?st" by simp
  have h4: "ceil_truediv (int (length ''abcde'')) (max_packet_size ?st - 12) = Inr 3"
    by (simp add: ceil_truediv_div)
  have h5: "snd (send_packets (?ok 1) (sequence_number ?st + 1) 3 ''abcde''
              (max_packet_size ?st - 12) (py_range 3)) = Some SocketError"
    by (simp add: init_server_def py_range_def upto.simps udp_packet_def struct_pack_III_def
          u32_def)
  have h6: "\<forall>b i. b \<noteq> 1 \<longrightarrow> ?ok b i" by simp
  from send_failure_isolated [of sorted_list_of_set ?st 1 "''abcde''" 3 ?ok, OF h1 h2 h3 h4 h5 h6]
  show ?thesis by (simp add: init_server_def insert_Diff_if)
qed

theorem sequence_number_counts_frames_witness:
  "sequence_number (final (send_frames sorted_list_of_set (init_server\<lparr>clients := {7::nat}\<rparr>)
     [(True, Encoded ''x'', reliable), (True, Dropped, reliable), (True, Encoded ''y'', reliable)])) = 2 \<and>
   unpack_u32 (be32 1 @ be32 1 @ be32 0 @ ''x'') = 1"
  using sequence_number_counts_frames [where iter = sorted_list_of_set and send_ok = reliable
      and st = "init_server\<lparr>clients := {7::nat}\<rparr>" and frame_data = "''x''"
      and d = "be32 1 @ be32 1 @ be32 0 @ ''x''" and c = 7
      and ticks = "[(True, Encoded ''x'', reliable), (True, Dropped, reliable),
                    (True, Encoded ''y'', reliable)]"]
    first_packet_sent
  by (simp add: init_server_def)

theorem no_frame_no_sequence_number_witness:
  "sequence_number (state (broadcast_iteration sorted_list_of_set reliable
      (init_server :: nat server) (Encoded ''x''))) \<noteq> sequence_number (init_server :: nat server) \<and>
   broadcast_iteration sorted_list_of_set reliable (init_server :: nat server) Dropped =
     \<lparr>state = init_server, sent = [], raised = None\<rparr> \<and>
   (\<exists>frame_data. Encoded ''x'' = Encoded frame_data)"
  using no_frame_no_sequence_number [where iter = sorted_list_of_set and send_ok = reliable
      and st = "init_server :: nat server" and cap = "Encoded ''x''"]
  by (simp add: iteration_sequence_number)

theorem datagram_layout_witness:
  "int (length (be32 1 @ be32 1 @ be32 0 @ ''x'')) \<le> 32768 \<and>
   unpack_u32 (drop 4 (be32 1 @ be32 1 @ be32 0 @ ''x'')) = 1 \<and>
   unpack_u32 (drop 8 (be32 1 @ be32 1 @ be32 0 @ ''x'')) = 0"
proof -
  from datagram_layout [OF first_packet_sent] obtain frame_data total_packets i where
    e: "Encoded ''x'' = Encoded frame_data"
    and n: "ceil_truediv (int (length frame_data))
              (max_packet_size (init_server\<lparr>clients := {7::nat}\<rparr>) - 12) = Inr total_packets"
    and h: "unpack_u32 (drop 4 (be32 1 @ be32 1 @ be32 0 @ ''x'')) = total_packets"
      "unpack_u32 (drop 8 (be32 1 @ be32 1 @ be32 0 @ ''x'')) = i"
      "int (length (be32 1 @ be32 1 @ be32 0 @ ''x'')) \<le>
         max_packet_size (init_server\<lparr>clients := {7::nat}\<rparr>)"
      "0 \<le> i" "i < total_packets"
    by blast
  from e n have "total_packets = 1" by (auto simp: init_server_def ceil_truediv_div)
  with h show ?thesis by (simp add: init_server_def)
qed

theorem empty_frame_sends_nothing_witness:
  "broadcast_iteration sorted_list_of_set reliable (init_server\<lparr>clients := {7::nat}\<rparr>) (Encoded []) =
     \<lparr>state = init_server\<lparr>clients := {7}, sequence_number := 1\<rparr>, sent = [], raised = None\<rparr>"
  using empty_frame_sends_nothing [where st = "init_server\<lparr>clients := {7::nat}\<rparr>"
      and iter = sorted_list_of_set and send_ok = reliable]
  by (simp add: init_server_def)

lemma decode_padded_COLOR:
  "decode_utf8 '' COLOR:300,10,10\<newline>'' = Some ([32] @ text_of ''COLOR:300,10,10'' @ [10])"
  by (simp add: decode_utf8_def text_of_def)

theorem listeners_matching_witness:
  "decode_utf8 ''REGISTER'' = Some (text_of ''REGISTER'') \<and>
   state (client_message (init_server :: nat server) ''REGISTER\<newline>'' 7 True) = init_server \<and>
   sent (client_message (init_server :: nat server) ''REGISTER\<newline>'' 7 True) = [] \<and>
   sent (client_message (init_server :: nat server) '' REGISTER'' 7 True) = [] \<and>
   control_message ascii_digits no_float (init_server :: nat server) '' COLOR:300,10,10\<newline>'' 7
     replies_ok =
   control_message ascii_digits no_float (init_server :: nat server) ''COLOR:300,10,10'' 7 replies_ok"
proof -
  let ?st = "init_server :: nat server"
  have "sent (client_message ?st ''REGISTER'' 7 True) \<noteq> []"
    by (simp add: client_message_REGISTER init_server_def)
  with listeners_matching [of ?st "''REGISTER''" 7 True]
  have c1: "decode_utf8 ''REGISTER'' = Some (text_of ''REGISTER'')" by blast
  have n1: "decode_utf8 ''REGISTER\<newline>'' \<noteq> Some (text_of ''REGISTER'') \<and>
            decode_utf8 ''REGISTER\<newline>'' \<noteq> Some (text_of ''UNREGISTER'')"
    by (simp add: decode_utf8_def text_of_def)
  with listeners_matching [of ?st "''REGISTER\<newline>''" 7 True]
  have c2: "state (client_message ?st ''REGISTER\<newline>'' 7 True) = ?st \<and>
            sent (client_message ?st ''REGISTER\<newline>'' 7 True) = []" by blast
  have n2: "decode_utf8 '' REGISTER'' \<noteq> Some (text_of ''REGISTER'') \<and>
            decode_utf8 '' REGISTER'' \<noteq> Some (text_of ''UNREGISTER'')"
    by (simp add: decode_utf8_def text_of_def)
  with listeners_matching [of ?st "'' REGISTER''" 7 True]
  have c3: "sent (client_message ?st '' REGISTER'' 7 True) = []" by blast
  have sp: "list_all isspace [32]" "list_all isspace [10]" by (simp_all add: isspace_def)
  from listeners_matching [where data = "'' COLOR:300,10,10\<newline>''" and pre = "[32]"
      and msg = "text_of ''COLOR:300,10,10''" and post = "[10]" and data' = "''COLOR:300,10,10''"
      and dec = ascii_digits and float_of = no_float and st = ?st and a = 7
      and reply_ok = replies_ok]
    decode_padded_COLOR decode_COLOR_300 sp
  have c4: "control_message ascii_digits no_float ?st '' COLOR:300,10,10\<newline>'' 7 replies_ok =
            control_message ascii_digits no_float ?st ''COLOR:300,10,10'' 7 replies_ok"
    by blast
  from c1 c2 c3 c4 show ?thesis by blast
qed

end
